theory Spec2Isabelle
  imports Main "HOL-Library.AList" "HOL-Library.Sublist" "HOL-Library.Multiset"
begin

section \<open>Python values and the operations the module applies to them\<close>

text \<open>
  The module \<^verbatim>\<open>src/utils.py\<close> works on what \<^verbatim>\<open>json.load\<close> returns: \<^verbatim>\<open>None\<close>,
  booleans, numbers, strings, lists and dictionaries with string keys. A dictionary is
  an association list in insertion order (a Python \<^verbatim>\<open>dict\<close> keeps it); lookup takes
  the first pair of a key, and a Python dictionary has no second one. Numbers are
  never inspected by the functions below, they are carried along. Loaded values share
  no object, so an assignment into one of them changes no other: functions that
  assign return the new value.
\<close>

datatype json =
    JNull
  | JBool bool
  | JNum int
  | JStr string
  | JArr "json list"
  | JObj "(string \<times> json) list"

datatype py_error = KeyError | TypeError | IndexError | ValueError | OverflowError | OSError

type_synonym 'a result = "py_error + 'a"

text \<open>Sequencing: an exception raised by the first computation is the outcome.\<close>

definition py_bind :: "'a result \<Rightarrow> ('a \<Rightarrow> 'b result) \<Rightarrow> 'b result" where
  "py_bind m f = (case m of Inl e \<Rightarrow> Inl e | Inr v \<Rightarrow> f v)"

text \<open>
  \<^verbatim>\<open>k in v\<close> for a string \<open>k\<close>: key membership in a dictionary, element membership
  in a list, substring test in a string, \<^verbatim>\<open>TypeError\<close> on \<^verbatim>\<open>None\<close>, booleans and
  numbers.
\<close>

fun py_in :: "string \<Rightarrow> json \<Rightarrow> bool result" where
  "py_in k (JObj kvs) = Inr (map_of kvs k \<noteq> None)"
| "py_in k (JArr xs) = Inr (JStr k \<in> set xs)"
| "py_in k (JStr s) = Inr (sublist k s)"
| "py_in k JNull = Inl TypeError"
| "py_in k (JBool b) = Inl TypeError"
| "py_in k (JNum n) = Inl TypeError"

text \<open>
  \<^verbatim>\<open>v[k]\<close> for a string \<open>k\<close>: \<^verbatim>\<open>KeyError\<close> on a dictionary without the key,
  \<^verbatim>\<open>TypeError\<close> on every other value (a list or a string wants an integer index, the
  rest is not subscriptable).
\<close>

fun py_getitem :: "json \<Rightarrow> string \<Rightarrow> json result" where
  "py_getitem (JObj kvs) k = (case map_of kvs k of None \<Rightarrow> Inl KeyError | Some v \<Rightarrow> Inr v)"
| "py_getitem (JArr xs) k = Inl TypeError"
| "py_getitem (JStr s) k = Inl TypeError"
| "py_getitem JNull k = Inl TypeError"
| "py_getitem (JBool b) k = Inl TypeError"
| "py_getitem (JNum n) k = Inl TypeError"

text \<open>
  \<^verbatim>\<open>v[k] = x\<close> for a string \<open>k\<close>: a dictionary replaces the value of an existing key
  in place and appends a new key; every other value raises \<^verbatim>\<open>TypeError\<close>.
\<close>

fun py_setitem :: "json \<Rightarrow> string \<Rightarrow> json \<Rightarrow> json result" where
  "py_setitem (JObj kvs) k x = Inr (JObj (AList.update k x kvs))"
| "py_setitem (JArr xs) k x = Inl TypeError"
| "py_setitem (JStr s) k x = Inl TypeError"
| "py_setitem JNull k x = Inl TypeError"
| "py_setitem (JBool b) k x = Inl TypeError"
| "py_setitem (JNum n) k x = Inl TypeError"

text \<open>
  What \<^verbatim>\<open>for x in v\<close> iterates over: the elements of a list, the keys of a
  dictionary, the one-character strings of a string; the other values are not
  iterable.
\<close>

fun py_iter :: "json \<Rightarrow> json list result" where
  "py_iter (JArr xs) = Inr xs"
| "py_iter (JObj kvs) = Inr (map (\<lambda>kv. JStr (fst kv)) kvs)"
| "py_iter (JStr s) = Inr (map (\<lambda>c. JStr [c]) s)"
| "py_iter JNull = Inl TypeError"
| "py_iter (JBool b) = Inl TypeError"
| "py_iter (JNum n) = Inl TypeError"

text \<open>A \<^verbatim>\<open>for\<close> loop over a list whose body updates the loop's variables or raises.\<close>

fun for_each :: "('a \<Rightarrow> 's \<Rightarrow> 's result) \<Rightarrow> 'a list \<Rightarrow> 's \<Rightarrow> 's result" where
  "for_each body [] s = Inr s"
| "for_each body (x # xs) s = py_bind (body x s) (for_each body xs)"

definition py_for :: "json \<Rightarrow> (json \<Rightarrow> 's \<Rightarrow> 's result) \<Rightarrow> 's \<Rightarrow> 's result" where
  "py_for v body s = py_bind (py_iter v) (\<lambda>xs. for_each body xs s)"

section \<open>\<^verbatim>\<open>get_messages_dict\<close>\<close>

text \<open>
  The dictionary of twelve lists that \<^verbatim>\<open>get_messages_dict\<close> builds, one field per
  key. Every entry is a Python value: \<^verbatim>\<open>None\<close> is \<open>JNull\<close>, a list is \<open>JArr\<close>, the
  link count is \<open>JNum\<close>.
\<close>

record msg_table =
  msg_id :: "json list"
  "text" :: "json list"
  attachments :: "json list"
  user :: "json list"
  mentions :: "json list"
  emojis :: "json list"
  reactions :: "json list"
  replies :: "json list"
  replies_to :: "json list"
  ts :: "json list"
  links :: "json list"
  link_count :: "json list"

definition empty_table :: msg_table where
  "empty_table = \<lparr>msg_id = [], text = [], attachments = [], user = [], mentions = [],
     emojis = [], reactions = [], replies = [], replies_to = [], ts = [], links = [],
     link_count = []\<rparr>"

text \<open>
  The local variables of the walk over \<^verbatim>\<open>msg["blocks"]\<close>, in the order
  \<open>(emoji_list, mention_list, link_count, links)\<close>.
\<close>

type_synonym blk_vars = "json list \<times> json list \<times> nat \<times> json list"

text \<open>Lines 139 to 148: the body of the innermost loop, on one sub-element.\<close>

definition scan_sub_element :: "json \<Rightarrow> blk_vars \<Rightarrow> blk_vars result" where
  "scan_sub_element elm' = (\<lambda>(emoji_list, mention_list, n_links, link_list).
     py_bind (py_in ''type'' elm') (\<lambda>has_type.
       if has_type then
         py_bind (py_getitem elm' ''type'') (\<lambda>t1.
         py_bind (if t1 = JStr ''emoji''
                  then py_bind (py_getitem elm' ''name'') (\<lambda>x. Inr (emoji_list @ [x]))
                  else Inr emoji_list) (\<lambda>emoji_list.
         py_bind (py_getitem elm' ''type'') (\<lambda>t2.
         py_bind (if t2 = JStr ''user''
                  then py_bind (py_getitem elm' ''user_id'') (\<lambda>x. Inr (mention_list @ [x]))
                  else Inr mention_list) (\<lambda>mention_list.
         py_bind (py_getitem elm' ''type'') (\<lambda>t3.
         if t3 = JStr ''link''
         then py_bind (py_getitem elm' ''url'')
                (\<lambda>x. Inr (emoji_list, mention_list, n_links + 1, link_list @ [x]))
         else Inr (emoji_list, mention_list, n_links, link_list))))))
       else Inr (emoji_list, mention_list, n_links, link_list)))"

text \<open>Lines 135 to 137: one element of a block.\<close>

definition scan_element :: "json \<Rightarrow> blk_vars \<Rightarrow> blk_vars result" where
  "scan_element elm vars =
     py_bind (py_in ''elements'' elm) (\<lambda>has.
       if has then py_bind (py_getitem elm ''elements'') (\<lambda>es. py_for es scan_sub_element vars)
       else Inr vars)"

text \<open>Lines 133 to 135: one block.\<close>

definition scan_block :: "json \<Rightarrow> blk_vars \<Rightarrow> blk_vars result" where
  "scan_block blk vars =
     py_bind (py_in ''elements'' blk) (\<lambda>has.
       if has then py_bind (py_getitem blk ''elements'') (\<lambda>es. py_for es scan_element vars)
       else Inr vars)"

text \<open>
  The body of the loop over the messages, statement by statement. Each statement
  appends to lists of the table or raises; an exception leaves the whole function,
  so the lists appended to so far are lost with it.
\<close>

text \<open>Lines 103 to 106: the identifier, with its \<^verbatim>\<open>try\<close> and bare \<^verbatim>\<open>except\<close>.\<close>

definition append_msg_id :: "json \<Rightarrow> msg_table \<Rightarrow> msg_table result" where
  "append_msg_id msg msg_list =
     (case py_getitem msg ''client_msg_id'' of
        Inr v \<Rightarrow> Inr (msg_list\<lparr>msg_id := msg_id msg_list @ [v]\<rparr>)
      | Inl e \<Rightarrow> Inr (msg_list\<lparr>msg_id := msg_id msg_list @ [JNull]\<rparr>))"

text \<open>Lines 108 to 110: text, sender and timestamp, subscripted with no guard.\<close>

definition append_text :: "json \<Rightarrow> msg_table \<Rightarrow> msg_table result" where
  "append_text msg msg_list =
     py_bind (py_getitem msg ''text'') (\<lambda>v. Inr (msg_list\<lparr>text := text msg_list @ [v]\<rparr>))"

definition append_user :: "json \<Rightarrow> msg_table \<Rightarrow> msg_table result" where
  "append_user msg msg_list =
     py_bind (py_getitem msg ''user'') (\<lambda>v. Inr (msg_list\<lparr>user := user msg_list @ [v]\<rparr>))"

definition append_ts :: "json \<Rightarrow> msg_table \<Rightarrow> msg_table result" where
  "append_ts msg msg_list =
     py_bind (py_getitem msg ''ts'') (\<lambda>v. Inr (msg_list\<lparr>ts := ts msg_list @ [v]\<rparr>))"

text \<open>Lines 112 to 115.\<close>

definition append_reactions :: "json \<Rightarrow> msg_table \<Rightarrow> msg_table result" where
  "append_reactions msg msg_list =
     py_bind (py_in ''reactions'' msg) (\<lambda>has.
       if has
       then py_bind (py_getitem msg ''reactions'')
              (\<lambda>v. Inr (msg_list\<lparr>reactions := reactions msg_list @ [v]\<rparr>))
       else Inr (msg_list\<lparr>reactions := reactions msg_list @ [JNull]\<rparr>))"

text \<open>Lines 117 to 120.\<close>

definition append_replies_to :: "json \<Rightarrow> msg_table \<Rightarrow> msg_table result" where
  "append_replies_to msg msg_list =
     py_bind (py_in ''parent_user_id'' msg) (\<lambda>has.
       if has
       then py_bind (py_getitem msg ''ts'')
              (\<lambda>v. Inr (msg_list\<lparr>replies_to := replies_to msg_list @ [v]\<rparr>))
       else Inr (msg_list\<lparr>replies_to := replies_to msg_list @ [JNull]\<rparr>))"

text \<open>
  Lines 122 to 125. The test is on the keys \<^verbatim>\<open>thread_ts\<close> and \<^verbatim>\<open>reply_users\<close>
  (the second only when the first is there: \<^verbatim>\<open>and\<close> short-circuits), the value
  read is \<^verbatim>\<open>msg["replies"]\<close>.
\<close>

definition append_replies :: "json \<Rightarrow> msg_table \<Rightarrow> msg_table result" where
  "append_replies msg msg_list =
     py_bind (py_bind (py_in ''thread_ts'' msg) (\<lambda>has_thread.
                if has_thread then py_in ''reply_users'' msg else Inr False)) (\<lambda>threaded.
       if threaded
       then py_bind (py_getitem msg ''replies'')
              (\<lambda>v. Inr (msg_list\<lparr>replies := replies msg_list @ [v]\<rparr>))
       else Inr (msg_list\<lparr>replies := replies msg_list @ [JNull]\<rparr>))"

text \<open>Lines 127 to 159.\<close>

definition append_blocks :: "json \<Rightarrow> msg_table \<Rightarrow> msg_table result" where
  "append_blocks msg msg_list =
     py_bind (py_in ''blocks'' msg) (\<lambda>has_blocks.
       if has_blocks then
         py_bind (py_getitem msg ''blocks'') (\<lambda>blocks.
         py_bind (py_for blocks scan_block ([], [], 0, []))
           (\<lambda>(emoji_list, mention_list, n_links, link_list).
              Inr (msg_list\<lparr>emojis := emojis msg_list @ [JArr emoji_list],
                             mentions := mentions msg_list @ [JArr mention_list],
                             links := links msg_list @ [JArr link_list],
                             link_count := link_count msg_list @ [JNum (int n_links)]\<rparr>)))
       else
         Inr (msg_list\<lparr>emojis := emojis msg_list @ [JNull],
                        mentions := mentions msg_list @ [JNull],
                        links := links msg_list @ [JNull],
                        link_count := link_count msg_list @ [JNum 0]\<rparr>))"

text \<open>Lines 102 to 159: the statements in the order of the source.\<close>

definition append_msg :: "json \<Rightarrow> msg_table \<Rightarrow> msg_table result" where
  "append_msg msg msg_list =
     py_bind (py_in ''subtype'' msg) (\<lambda>has_subtype.
       if \<not> has_subtype then
         py_bind (append_msg_id msg msg_list) (\<lambda>msg_list.
         py_bind (append_text msg msg_list) (\<lambda>msg_list.
         py_bind (append_user msg msg_list) (\<lambda>msg_list.
         py_bind (append_ts msg msg_list) (\<lambda>msg_list.
         py_bind (append_reactions msg msg_list) (\<lambda>msg_list.
         py_bind (append_replies_to msg msg_list) (\<lambda>msg_list.
         py_bind (append_replies msg msg_list) (\<lambda>msg_list.
         append_blocks msg msg_list)))))))
       else Inr msg_list)"

text \<open>Lines 85 to 161.\<close>

definition get_messages_dict :: "json list \<Rightarrow> msg_table result" where
  "get_messages_dict msgs = for_each append_msg msgs empty_table"

section \<open>The table in the words of the specification\<close>

text \<open>
  The definitions of this section do not come from the source: they say what the
  specification says about the outcome, to be compared with the functions above.
\<close>

text \<open>A message has a \<^verbatim>\<open>subtype\<close> field, or lacks it.\<close>

definition has_subtype :: "json \<Rightarrow> bool" where
  "has_subtype msg = (py_in ''subtype'' msg = Inr True)"

definition lacks_subtype :: "json \<Rightarrow> bool" where
  "lacks_subtype msg = (py_in ''subtype'' msg = Inr False)"

text \<open>The messages that get a row, in input order.\<close>

definition rows :: "json list \<Rightarrow> json list" where
  "rows msgs = filter lacks_subtype msgs"

text \<open>The identifier of a message: \<^verbatim>\<open>client_msg_id\<close>, or \<^verbatim>\<open>None\<close> without one.\<close>

definition msg_id_of :: "json \<Rightarrow> json" where
  "msg_id_of msg = (case py_getitem msg ''client_msg_id'' of Inr v \<Rightarrow> v | Inl e \<Rightarrow> JNull)"

text \<open>
  The two-level walk block, element, sub-element: what a value iterates over, the
  content of the \<^verbatim>\<open>elements\<close> field of a block or an element (nothing when the
  field is absent), and the sub-elements of a layout-block structure.
\<close>

definition items :: "json \<Rightarrow> json list" where
  "items v = (case py_iter v of Inr xs \<Rightarrow> xs | Inl e \<Rightarrow> [])"

definition children :: "json \<Rightarrow> json list" where
  "children v =
     (if py_in ''elements'' v = Inr True
      then (case py_getitem v ''elements'' of Inr es \<Rightarrow> items es | Inl e \<Rightarrow> [])
      else [])"

definition sub_elements :: "json \<Rightarrow> json list" where
  "sub_elements blocks = concat (map children (concat (map children (items blocks))))"

text \<open>A sub-element carries the type tag \<open>t\<close>.\<close>

definition has_type :: "string \<Rightarrow> json \<Rightarrow> bool" where
  "has_type t e = (py_in ''type'' e = Inr True \<and> py_getitem e ''type'' = Inr (JStr t))"

text \<open>
  What a walk over the sub-elements \<open>xs\<close> adds to the four local variables: the names
  of the emoji, the identifiers of the mentioned users, the addresses of the links,
  each in walk order, and one count per link.
\<close>

definition collected :: "json list \<Rightarrow> blk_vars \<Rightarrow> blk_vars \<Rightarrow> bool" where
  "collected xs v v' =
     (case v of (es, ms, n, ls) \<Rightarrow> case v' of (es', ms', n', ls') \<Rightarrow>
        map Inr es' = map Inr es @ map (\<lambda>e. py_getitem e ''name'') (filter (has_type ''emoji'') xs) \<and>
        map Inr ms' = map Inr ms @ map (\<lambda>e. py_getitem e ''user_id'') (filter (has_type ''user'') xs) \<and>
        map Inr ls' = map Inr ls @ map (\<lambda>e. py_getitem e ''url'') (filter (has_type ''link'') xs) \<and>
        n' = n + length (filter (has_type ''link'') xs))"

text \<open>The four block-derived entries of the row of a message.\<close>

definition block_row :: "json \<Rightarrow> json \<Rightarrow> json \<Rightarrow> json \<Rightarrow> json \<Rightarrow> bool" where
  "block_row m em me li lc =
     ((py_in ''blocks'' m = Inr False \<and> em = JNull \<and> me = JNull \<and> li = JNull \<and> lc = JNum 0) \<or>
      (py_in ''blocks'' m = Inr True \<and>
       (\<exists>blocks es ms n ls. py_getitem m ''blocks'' = Inr blocks \<and>
          py_for blocks scan_block ([], [], 0, []) = Inr (es, ms, n, ls) \<and>
          em = JArr es \<and> me = JArr ms \<and> li = JArr ls \<and> lc = JNum (int n))))"

text \<open>
  A channel file of three messages: a join notice, a message with a mention, a link
  and an emoji in its blocks, and a plain message; and the table they give.
\<close>

definition example_msgs :: "json list" where
  "example_msgs =
     [JObj [(''subtype'', JStr ''channel_join''), (''text'', JStr ''joined'')],
      JObj [(''client_msg_id'', JStr ''a1''), (''text'', JStr ''hi''), (''user'', JStr ''U1''),
            (''ts'', JStr ''1.0''),
            (''blocks'', JArr [JObj [(''type'', JStr ''rich_text''), (''elements'',
               JArr [JObj [(''type'', JStr ''rich_text_section''), (''elements'',
                 JArr [JObj [(''type'', JStr ''user''), (''user_id'', JStr ''U2'')],
                       JObj [(''type'', JStr ''text''), (''text'', JStr ''see'')],
                       JObj [(''type'', JStr ''link''), (''url'', JStr ''http://x'')],
                       JObj [(''type'', JStr ''emoji''), (''name'', JStr ''smile'')]])]])]])],
      JObj [(''text'', JStr ''bye''), (''user'', JStr ''U2''), (''ts'', JStr ''2.0'')]]"

definition example_table :: msg_table where
  "example_table =
     \<lparr>msg_id = [JStr ''a1'', JNull], text = [JStr ''hi'', JStr ''bye''], attachments = [],
      user = [JStr ''U1'', JStr ''U2''], mentions = [JArr [JStr ''U2''], JNull],
      emojis = [JArr [JStr ''smile''], JNull], reactions = [JNull, JNull],
      replies = [JNull, JNull], replies_to = [JNull, JNull], ts = [JStr ''1.0'', JStr ''2.0''],
      links = [JArr [JStr ''http://x''], JNull], link_count = [JNum 1, JNum 0]\<rparr>"

text \<open>
  A computation returns: it does not raise.
\<close>

definition succeeds :: "'a result \<Rightarrow> bool" where
  "succeeds r = (case r of Inr v \<Rightarrow> True | Inl e \<Rightarrow> False)"

text \<open>
  The messages on which the loop body does not raise: those with a \<^verbatim>\<open>subtype\<close>
  field, which it skips, and those without that have \<^verbatim>\<open>text\<close>, \<^verbatim>\<open>user\<close> and
  \<^verbatim>\<open>ts\<close>, have \<^verbatim>\<open>replies\<close> when they have both \<^verbatim>\<open>thread_ts\<close> and
  \<^verbatim>\<open>reply_users\<close>, and whose blocks, when they have some, can be walked.
\<close>

definition extractable :: "json \<Rightarrow> bool" where
  "extractable m =
     (has_subtype m \<or>
      (lacks_subtype m \<and> succeeds (py_getitem m ''text'') \<and> succeeds (py_getitem m ''user'') \<and>
       succeeds (py_getitem m ''ts'') \<and>
       (if py_in ''thread_ts'' m = Inr True \<and> py_in ''reply_users'' m = Inr True
        then succeeds (py_getitem m ''replies'') else True) \<and>
       (if py_in ''blocks'' m = Inr True
        then succeeds (py_bind (py_getitem m ''blocks'') (\<lambda>b. py_for b scan_block ([], [], 0, [])))
        else True)))"

text \<open>
  A message with an identifier, a sender and a timestamp, and no text.
\<close>

definition missing_text_msg :: json where
  "missing_text_msg = JObj [(''client_msg_id'', JStr ''a1''), (''user'', JStr ''U1''), (''ts'', JStr ''1.0'')]"

text \<open>
  A sufficient shape for the walk: the layout-block structure is a list of
  dictionaries, every \<^verbatim>\<open>elements\<close> field on the two levels is a list of
  dictionaries, and a sub-element tagged \<^verbatim>\<open>emoji\<close>, \<^verbatim>\<open>user\<close> or \<^verbatim>\<open>link\<close> has its
  \<^verbatim>\<open>name\<close>, \<^verbatim>\<open>user_id\<close> or \<^verbatim>\<open>url\<close>.
\<close>

fun is_dict :: "json \<Rightarrow> bool" where
  "is_dict (JObj kvs) = True"
| "is_dict JNull = False"
| "is_dict (JBool b) = False"
| "is_dict (JNum n) = False"
| "is_dict (JStr s) = False"
| "is_dict (JArr xs) = False"

definition sub_element_ok :: "json \<Rightarrow> bool" where
  "sub_element_ok e =
     (is_dict e \<and>
      (if has_type ''emoji'' e then succeeds (py_getitem e ''name'') else True) \<and>
      (if has_type ''user'' e then succeeds (py_getitem e ''user_id'') else True) \<and>
      (if has_type ''link'' e then succeeds (py_getitem e ''url'') else True))"

definition nested_ok :: "(json \<Rightarrow> bool) \<Rightarrow> json \<Rightarrow> bool" where
  "nested_ok inner v =
     (is_dict v \<and>
      (case py_getitem v ''elements'' of
         Inl e \<Rightarrow> True
       | Inr (JArr xs) \<Rightarrow> list_all inner xs
       | Inr other \<Rightarrow> False))"

definition blocks_ok :: "json \<Rightarrow> bool" where
  "blocks_ok blocks =
     (case blocks of JArr bs \<Rightarrow> list_all (nested_ok (nested_ok sub_element_ok)) bs | other \<Rightarrow> False)"

text \<open>A message of that shape, with the fields that the loop body subscripts.\<close>

definition well_formed :: "json \<Rightarrow> bool" where
  "well_formed m =
     (is_dict m \<and>
      (has_subtype m \<or>
       (succeeds (py_getitem m ''text'') \<and> succeeds (py_getitem m ''user'') \<and>
        succeeds (py_getitem m ''ts'') \<and>
        (if py_in ''thread_ts'' m = Inr True \<and> py_in ''reply_users'' m = Inr True
         then succeeds (py_getitem m ''replies'') else True) \<and>
        (case py_getitem m ''blocks'' of Inl e \<Rightarrow> True | Inr blocks \<Rightarrow> blocks_ok blocks))))"

section \<open>\<^verbatim>\<open>from_msg_get_replies\<close>\<close>

text \<open>
  Lines 183 and 184: the two assignments to one reply, each reading the message
  before it writes the reply.
\<close>

definition annotate_reply :: "json \<Rightarrow> json \<Rightarrow> json result" where
  "annotate_reply msg reply =
     py_bind (py_getitem msg ''thread_ts'') (\<lambda>v.
     py_bind (py_setitem reply ''thread_ts'' v) (\<lambda>reply.
     py_bind (py_getitem msg ''client_msg_id'') (\<lambda>v.
     py_setitem reply ''message_id'' v)))"

text \<open>
  Lines 182 to 185: the loop inside the \<^verbatim>\<open>try\<close>. The list \<^verbatim>\<open>replies\<close> lives
  outside the \<^verbatim>\<open>try\<close>, so the loop gives the exception that stopped it, if any,
  together with the list as it stands at that moment.
\<close>

fun reply_loop :: "json \<Rightarrow> json list \<Rightarrow> json list \<Rightarrow> py_error option \<times> json list" where
  "reply_loop msg [] acc = (None, acc)"
| "reply_loop msg (reply # rest) acc =
     (case annotate_reply msg reply of
        Inl e \<Rightarrow> (Some e, acc)
      | Inr reply' \<Rightarrow> reply_loop msg rest (acc @ [reply']))"






section \<open>Dictionaries\<close>

text \<open>
  A dictionary key must be hashable: a list or a dictionary as key raises
  \<^verbatim>\<open>TypeError\<close>. Two keys are the same key when they are equal in Python, where
  \<^verbatim>\<open>True\<close> is \<open>1\<close> and \<^verbatim>\<open>False\<close> is \<open>0\<close>; \<open>py_key\<close> gives each key the
  representative of its class.
\<close>

fun hashable :: "json \<Rightarrow> bool" where
  "hashable (JArr xs) = False"
| "hashable (JObj kvs) = False"
| "hashable JNull = True"
| "hashable (JBool b) = True"
| "hashable (JNum n) = True"
| "hashable (JStr s) = True"

fun py_key :: "json \<Rightarrow> json" where
  "py_key (JBool b) = JNum (if b then 1 else 0)"
| "py_key JNull = JNull"
| "py_key (JNum n) = JNum n"
| "py_key (JStr s) = JStr s"
| "py_key (JArr xs) = JArr xs"
| "py_key (JObj kvs) = JObj kvs"

text \<open>
  A dictionary with arbitrary hashable keys, in insertion order. \<^verbatim>\<open>d.get(k)\<close>,
  \<^verbatim>\<open>k in d\<close> and \<^verbatim>\<open>d[k] = v\<close>: an assignment to a key that is there replaces the
  value and keeps the key and its place.
\<close>

type_synonym 'v py_dict = "(json \<times> 'v) list"

fun dict_get :: "'v py_dict \<Rightarrow> json \<Rightarrow> 'v option" where
  "dict_get [] k = None"
| "dict_get ((k', v) # d) k = (if py_key k' = py_key k then Some v else dict_get d k)"

fun dict_set :: "json \<Rightarrow> 'v \<Rightarrow> 'v py_dict \<Rightarrow> 'v py_dict" where
  "dict_set k v [] = [(k, v)]"
| "dict_set k v ((k', v') # d) =
     (if py_key k' = py_key k then (k', v) # d else (k', v') # dict_set k v d)"

definition py_dict_setitem :: "json \<Rightarrow> 'v \<Rightarrow> 'v py_dict \<Rightarrow> 'v py_dict result" where
  "py_dict_setitem k v d = (if hashable k then Inr (dict_set k v d) else Inl TypeError)"

definition py_dict_in :: "json \<Rightarrow> 'v py_dict \<Rightarrow> bool result" where
  "py_dict_in k d = (if hashable k then Inr (dict_get d k \<noteq> None) else Inl TypeError)"

section \<open>\<^verbatim>\<open>get_msgs_df_info\<close>\<close>

text \<open>
  Lines 54 and 55, the comprehension \<^verbatim>\<open>[u for r in col if r != None for u in r]\<close>:
  the entries of a column other than \<^verbatim>\<open>None\<close> are iterated, in order.
\<close>

definition flatten_entry :: "json \<Rightarrow> json list \<Rightarrow> json list result" where
  "flatten_entry r acc =
     (if r \<noteq> JNull then py_bind (py_iter r) (\<lambda>us. Inr (acc @ us)) else Inr acc)"

definition flatten_column :: "json list \<Rightarrow> json list result" where
  "flatten_column col = for_each flatten_entry col []"

text \<open>
  \<^verbatim>\<open>Counter(xs)\<close> of the standard library: \<^verbatim>\<open>self[elem] = self.get(elem, 0) + 1\<close> for
  each element in turn; \<^verbatim>\<open>dict(...)\<close> of it has the same keys and counts.
\<close>

definition count_elem :: "json \<Rightarrow> nat py_dict \<Rightarrow> nat py_dict result" where
  "count_elem u d =
     py_dict_setitem u ((case dict_get d u of None \<Rightarrow> 0 | Some c \<Rightarrow> c) + 1) d"

definition Counter :: "json list \<Rightarrow> nat py_dict result" where
  "Counter xs = for_each count_elem xs []"

definition count_column :: "json list \<Rightarrow> nat py_dict result" where
  "count_column col = py_bind (flatten_column col) Counter"

text \<open>
  Lines 53 to 57. The two other dictionaries come from pandas
  (\<^verbatim>\<open>value_counts().to_dict()\<close> of the \<^verbatim>\<open>user\<close> column and
  \<^verbatim>\<open>groupby("user").link_count.sum().to_dict()\<close>), which is not part of the module:
  they are the parameters \<open>value_counts\<close> and \<open>groupby_sum\<close>.
\<close>

definition get_msgs_df_info ::
  "(json list \<Rightarrow> 'a result) \<Rightarrow> (json list \<Rightarrow> json list \<Rightarrow> 'b result) \<Rightarrow> msg_table
     \<Rightarrow> ('a \<times> nat py_dict \<times> nat py_dict \<times> 'b) result" where
  "get_msgs_df_info value_counts groupby_sum df =
     py_bind (value_counts (user df)) (\<lambda>msgs_count_dict.
     py_bind (count_column (replies df)) (\<lambda>replies_count_dict.
     py_bind (count_column (mentions df)) (\<lambda>mentions_count_dict.
     py_bind (groupby_sum (user df) (link_count df)) (\<lambda>links_count_dict.
     Inr (msgs_count_dict, replies_count_dict, mentions_count_dict, links_count_dict)))))"

text \<open>
  In the words of the specification: the number of times an identifier occurs as an
  element across the entries of a column that are not \<^verbatim>\<open>None\<close>.
\<close>

definition occurrences :: "json \<Rightarrow> json list \<Rightarrow> nat" where
  "occurrences u col =
     length (filter (\<lambda>x. py_key x = py_key u) (concat (map items (filter (\<lambda>r. r \<noteq> JNull) col))))"

text \<open>A frame of three messages, two of them with replies.\<close>

definition example_frame :: msg_table where
  "example_frame = empty_table\<lparr>
     user := [JStr ''U1'', JStr ''U2'', JStr ''U1''],
     replies := [JArr [JStr ''U2'', JStr ''U3''], JNull, JArr [JStr ''U2'']],
     mentions := [JNull, JNull, JNull],
     link_count := [JNum 0, JNum 0, JNum 0]\<rparr>"



section \<open>\<^verbatim>\<open>map_userid_2_realname\<close>\<close>

text \<open>
  The two entries of \<^verbatim>\<open>user_profile\<close> that the function reads:
  \<^verbatim>\<open>user_profile['profile']\<close>, a column of profile dictionaries numbered from \<open>0\<close>,
  and \<^verbatim>\<open>user_profile['id']\<close>, the column of identifiers.
\<close>

record user_profile =
  profile :: "json list"
  id' :: "json list"

text \<open>Lines 283 and 284: the real name of every profile, in order.\<close>

definition append_real_name :: "json \<Rightarrow> json list \<Rightarrow> json list result" where
  "append_real_name p real_name =
     py_bind (py_getitem p ''real_name'') (\<lambda>v. Inr (real_name @ [v]))"

text \<open>
  Lines 287 to 289: the body of the loop over the identifiers, on the variables
  \<open>(user_dict, count)\<close>. \<^verbatim>\<open>real_name[count]\<close> raises \<^verbatim>\<open>IndexError\<close> past the
  end of the list.
\<close>

definition set_user :: "json list \<Rightarrow> json \<Rightarrow> json py_dict \<times> nat \<Rightarrow> (json py_dict \<times> nat) result" where
  "set_user real_name i = (\<lambda>(user_dict, count).
     if count < length real_name
     then py_bind (py_dict_setitem i (real_name ! count) user_dict)
            (\<lambda>user_dict. Inr (user_dict, count + 1))
     else Inl IndexError)"

text \<open>Lines 278 to 289: the directory from identifier to real name.\<close>

definition build_user_dict :: "user_profile \<Rightarrow> json py_dict result" where
  "build_user_dict up =
     py_bind (for_each append_real_name (profile up) []) (\<lambda>real_name.
     py_bind (for_each (set_user real_name) (id' up) ([], 0)) (\<lambda>(user_dict, count).
     Inr user_dict))"

text \<open>
  Lines 292 to 294: the body of the loop over the keys of \<^verbatim>\<open>comm_dict\<close>. The right
  side \<^verbatim>\<open>comm_dict[i]\<close> is read first, then \<^verbatim>\<open>user_dict[i]\<close>, then the entry of
  \<^verbatim>\<open>ac_comm_dict\<close> is written.
\<close>

definition map_one :: "json py_dict \<Rightarrow> 'c py_dict \<Rightarrow> json \<Rightarrow> 'c py_dict \<Rightarrow> 'c py_dict result" where
  "map_one user_dict comm_dict i ac_comm_dict =
     py_bind (py_dict_in i user_dict) (\<lambda>known.
       if known then
         (case dict_get comm_dict i of
            None \<Rightarrow> Inl KeyError
          | Some c \<Rightarrow>
              (case dict_get user_dict i of
                 None \<Rightarrow> Inl KeyError
               | Some name \<Rightarrow> py_dict_setitem name c ac_comm_dict))
       else Inr ac_comm_dict)"

text \<open>
  Lines 296 and 297: the rows \<open>(name, count)\<close> of the dictionary, sorted by count,
  largest first. The order among rows of equal count is not fixed by the library
  (the default sorting algorithm of \<^verbatim>\<open>sort_values\<close> is not stable): the parameter
  \<open>tie\<close> ranks the rows, and rows of equal count come out by rank.
\<close>

definition sort_values_desc ::
  "(json \<times> 'c \<Rightarrow> nat) \<Rightarrow> (json \<times> 'c::linorder) list \<Rightarrow> (json \<times> 'c) list" where
  "sort_values_desc tie rs = rev (sort_key snd (rev (sort_key tie rs)))"

text \<open>
  Lines 272 to 303. The drawing of lines 300 and 301 belongs to pandas and matplotlib:
  it is the parameter \<open>plot_bar\<close>, which may raise and does not change the rows.
\<close>

definition map_userid_2_realname ::
  "(json \<times> 'c \<Rightarrow> nat) \<Rightarrow> ((json \<times> 'c) list \<Rightarrow> unit result) \<Rightarrow>
     user_profile \<Rightarrow> ('c::linorder) py_dict \<Rightarrow> bool \<Rightarrow> (json \<times> 'c) list result" where
  "map_userid_2_realname tie plot_bar up comm_dict plot =
     py_bind (build_user_dict up) (\<lambda>user_dict.
     py_bind (for_each (map_one user_dict comm_dict) (map fst comm_dict) []) (\<lambda>ac_comm_dict.
     let ac_comm_dict = sort_values_desc tie ac_comm_dict in
     if plot then py_bind (plot_bar ac_comm_dict) (\<lambda>u. Inr ac_comm_dict)
     else Inr ac_comm_dict))"

text \<open>
  The remaining definitions of this section serve the statements about the function;
  they are not part of the source. A directory of three users, and counts for two of
  them and for an identifier that the directory does not have.
\<close>

definition example_profile :: user_profile where
  "example_profile =
     \<lparr>profile = [JObj [(''real_name'', JStr ''Ada'')], JObj [(''real_name'', JStr ''Bob'')],
                 JObj [(''real_name'', JStr ''Cy'')]],
      id' = [JStr ''U1'', JStr ''U2'', JStr ''U3'']\<rparr>"

definition example_counts :: "int py_dict" where
  "example_counts = [(JStr ''U2'', 2), (JStr ''U9'', 7), (JStr ''U1'', 5)]"

text \<open>Removing the entry of an identifier from a dictionary.\<close>

definition dict_remove :: "json \<Rightarrow> 'v py_dict \<Rightarrow> 'v py_dict" where
  "dict_remove i d = filter (\<lambda>kv. py_key (fst kv) \<noteq> py_key i) d"

text \<open>
  The counts re-keyed: each entry of the count dictionary whose identifier the
  directory knows, under the name the directory has for it, in the order of the
  count dictionary.
\<close>

definition resolved :: "json py_dict \<Rightarrow> 'c py_dict \<Rightarrow> (json \<times> 'c) list" where
  "resolved user_dict comm_dict =
     concat (map (\<lambda>kv. case dict_get user_dict (fst kv) of
                          None \<Rightarrow> [] | Some name \<Rightarrow> [(name, snd kv)]) comm_dict)"

text \<open>
  The directory in the words of the specification: the identifier at a position of
  \<^verbatim>\<open>user_profile['id']\<close> has the \<^verbatim>\<open>real_name\<close> of the profile at the same
  position, and of two positions with the same identifier the later one counts.
\<close>

definition real_names :: "user_profile \<Rightarrow> json list" where
  "real_names up =
     map (\<lambda>p. case py_getitem p ''real_name'' of Inr v \<Rightarrow> v | Inl e \<Rightarrow> JNull) (profile up)"

definition directory :: "user_profile \<Rightarrow> json py_dict" where
  "directory up = rev (zip (id' up) (real_names up))"

text \<open>
  The rank that a given arrangement \<open>ys\<close> of the rows gives to a row: its position in
  \<open>ys\<close>.
\<close>

definition position :: "'a list \<Rightarrow> 'a \<Rightarrow> nat" where
  "position ys r = length (takeWhile (\<lambda>x. x \<noteq> r) ys)"

text \<open>
  What the library's parameters are in the examples: no two rows of equal count to
  rank, and a drawing that does not raise.
\<close>

definition no_tie :: "json \<times> int \<Rightarrow> nat" where
  "no_tie r = 0"

definition draws :: "(json \<times> int) list \<Rightarrow> unit result" where
  "draws rs = Inr ()"

text \<open>
  A directory in which two identifiers have the same real name, and counts for its
  three identifiers.
\<close>

definition shared_name_profile :: user_profile where
  "shared_name_profile =
     \<lparr>profile = [JObj [(''real_name'', JStr ''Ada'')], JObj [(''real_name'', JStr ''Bob'')],
                 JObj [(''real_name'', JStr ''Ada'')]],
      id' = [JStr ''U1'', JStr ''U2'', JStr ''U3'']\<rparr>"

definition shared_name_counts :: "int py_dict" where
  "shared_name_counts = [(JStr ''U1'', 5), (JStr ''U2'', 2), (JStr ''U3'', 1)]"

section \<open>\<^verbatim>\<open>convert_2_timestamp\<close>\<close>

subsection \<open>The library calls of line 259 and 260\<close>

text \<open>
  \<^verbatim>\<open>float(time_unix)\<close>. The numbers of this model are integers, and the instant is
  kept in whole seconds: the format of line 260 prints no fraction of a second. Of an
  integer, \<^verbatim>\<open>float\<close> is the nearest double, ties to even: the integer itself below
  \<open>2 ^ 53\<close> in absolute value, and \<^verbatim>\<open>OverflowError\<close> from \<open>2 ^ 1024 - 2 ^ 970\<close> on.
  Of a truth value it is 1 or 0. \<^verbatim>\<open>None\<close>, a list and a dictionary raise
  \<^verbatim>\<open>TypeError\<close>. A string is parsed by the library, which is the parameter
  \<open>float_str\<close>: the whole seconds of the number read, or the exception raised.
\<close>

function bit_length :: "int \<Rightarrow> nat" where
  "bit_length n = (if n \<le> 0 then 0 else Suc (bit_length (n div 2)))"
  by pat_completeness auto

termination
  by (relation "measure nat") auto

declare bit_length.simps [simp del]

definition nearest_double :: "int \<Rightarrow> int result" where
  "nearest_double n =
     (if \<bar>n\<bar> < 2 ^ 53 then Inr n
      else let e = bit_length \<bar>n\<bar> - 53;
               q = \<bar>n\<bar> div 2 ^ e;
               r = \<bar>n\<bar> mod 2 ^ e;
               q' = (if 2 ^ e < 2 * r \<or> (2 * r = 2 ^ e \<and> odd q) then q + 1 else q)
           in if 2 ^ 1024 \<le> q' * 2 ^ e then Inl OverflowError
              else Inr (sgn n * (q' * 2 ^ e)))"

definition py_float :: "(string \<Rightarrow> int result) \<Rightarrow> json \<Rightarrow> int result" where
  "py_float float_str v =
     (case v of
        JNum n \<Rightarrow> nearest_double n
      | JBool b \<Rightarrow> Inr (if b then 1 else 0)
      | JStr s \<Rightarrow> float_str s
      | JNull \<Rightarrow> Inl TypeError
      | JArr xs \<Rightarrow> Inl TypeError
      | JObj kvs \<Rightarrow> Inl TypeError)"

text \<open>
  The broken-down time of the C library (\<^verbatim>\<open>struct tm\<close>: years since 1900, months
  from 0) and the \<^verbatim>\<open>datetime\<close> object of Python, without the microseconds, which
  the format does not print.
\<close>

record tm =
  tm_year :: int
  tm_mon :: int
  tm_mday :: int
  tm_hour :: int
  tm_min :: int
  tm_sec :: int

record datetime =
  year :: nat
  month :: nat
  day :: nat
  hour :: nat
  minute :: nat
  second :: nat

text \<open>
  The calendar arithmetic of CPython's \<^verbatim>\<open>_datetimemodule.c\<close>: \<^verbatim>\<open>is_leap\<close>,
  \<^verbatim>\<open>days_in_month\<close>, \<^verbatim>\<open>days_before_year\<close>, \<^verbatim>\<open>days_before_month\<close>,
  \<^verbatim>\<open>ymd_to_ord\<close> and \<^verbatim>\<open>utc_to_seconds\<close>, which raises \<^verbatim>\<open>ValueError\<close> (year out
  of range) for a year outside 1 to 9999. The C library gives a month from 1 to 12;
  for another month the C code reads past its table, and the model takes 0 days.
\<close>

definition is_leap :: "int \<Rightarrow> bool" where
  "is_leap y = (y mod 4 = 0 \<and> (if y mod 100 = 0 then y mod 400 = 0 else True))"

definition days_in_month :: "int \<Rightarrow> int \<Rightarrow> int" where
  "days_in_month y m =
     (if m = 2 \<and> is_leap y then 29
      else [31, 28, 31, 30, 31, 30, 31, 31, 30, 31, 30, 31] ! nat (m - 1))"

definition days_before_year :: "int \<Rightarrow> int" where
  "days_before_year y = (let y1 = y - 1 in y1 * 365 + y1 div 4 - y1 div 100 + y1 div 400)"

definition days_before_month :: "int \<Rightarrow> int \<Rightarrow> int" where
  "days_before_month y m =
     (let days = (if 1 \<le> m \<and> m \<le> 12
                  then [0, 31, 59, 90, 120, 151, 181, 212, 243, 273, 304, 334] ! nat (m - 1)
                  else 0)
      in if 2 < m \<and> is_leap y then days + 1 else days)"

definition ymd_to_ord :: "int \<Rightarrow> int \<Rightarrow> int \<Rightarrow> int" where
  "ymd_to_ord y m d = days_before_year y + days_before_month y m + d"

definition utc_to_seconds :: "int \<Rightarrow> int \<Rightarrow> int \<Rightarrow> int \<Rightarrow> int \<Rightarrow> int \<Rightarrow> int result" where
  "utc_to_seconds y m d hh mm ss =
     (if y < 1 \<or> 9999 < y then Inl ValueError
      else Inr (((ymd_to_ord y m d * 24 + hh) * 60 + mm) * 60 + ss))"

text \<open>
  \<^verbatim>\<open>local(u)\<close> of \<^verbatim>\<open>_datetimemodule.c\<close>: the local time of an instant, in seconds
  since the year 1. The parameter \<open>localtime\<close> is the C library's \<^verbatim>\<open>localtime\<close> in
  the time zone of the host, with what CPython raises around it: \<^verbatim>\<open>OverflowError\<close>
  for an instant outside the platform's \<^verbatim>\<open>time_t\<close>, \<^verbatim>\<open>OSError\<close> when the C
  library fails.
\<close>

definition local_seconds :: "(int \<Rightarrow> tm result) \<Rightarrow> int \<Rightarrow> int result" where
  "local_seconds localtime t =
     py_bind (localtime t) (\<lambda>lt.
       utc_to_seconds (tm_year lt + 1900) (tm_mon lt + 1) (tm_mday lt)
         (tm_hour lt) (tm_min lt) (tm_sec lt))"

text \<open>
  The constructor (\<^verbatim>\<open>new_datetime_ex2\<close> with \<^verbatim>\<open>check_date_args\<close> and
  \<^verbatim>\<open>check_time_args\<close>): \<^verbatim>\<open>ValueError\<close> for a field out of range.
\<close>

definition new_datetime :: "int \<Rightarrow> int \<Rightarrow> int \<Rightarrow> int \<Rightarrow> int \<Rightarrow> int \<Rightarrow> datetime result" where
  "new_datetime y m d hh mm ss =
     (if y < 1 \<or> 9999 < y then Inl ValueError
      else if m < 1 \<or> 12 < m then Inl ValueError
      else if d < 1 \<or> days_in_month y m < d then Inl ValueError
      else if hh < 0 \<or> 23 < hh then Inl ValueError
      else if mm < 0 \<or> 59 < mm then Inl ValueError
      else if ss < 0 \<or> 59 < ss then Inl ValueError
      else Inr \<lparr>year = nat y, month = nat m, day = nat d,
                hour = nat hh, minute = nat mm, second = nat ss\<rparr>)"

text \<open>
  \<^verbatim>\<open>datetime.fromtimestamp(t)\<close> without a time zone argument
  (\<^verbatim>\<open>datetime_from_timet_and_us\<close>, on a POSIX host): the local time of the instant,
  a leap second clamped to 59; then, to set the \<^verbatim>\<open>fold\<close> attribute, the local time
  of the instant 24 hours earlier and, when the clock was set back in between, of the
  instant before the change. Each of these conversions can raise; \<^verbatim>\<open>fold\<close> is not
  printed by the format.
\<close>

definition fromtimestamp :: "(int \<Rightarrow> tm result) \<Rightarrow> int \<Rightarrow> datetime result" where
  "fromtimestamp localtime timet =
     py_bind (localtime timet) (\<lambda>lt.
     let y = tm_year lt + 1900; m = tm_mon lt + 1; d = tm_mday lt;
         hh = tm_hour lt; mm = tm_min lt; ss = min 59 (tm_sec lt) in
     py_bind (utc_to_seconds y m d hh mm ss) (\<lambda>result_seconds.
     py_bind (local_seconds localtime (timet - 86400)) (\<lambda>probe_seconds.
     let transition = result_seconds - probe_seconds - 86400 in
     py_bind (if transition < 0 then local_seconds localtime (timet + transition)
              else Inr probe_seconds) (\<lambda>probe_seconds.
     new_datetime y m d hh mm ss))))"

text \<open>
  \<^verbatim>\<open>a.strftime('%Y-%m-%d %H:%M:%S')\<close>: month, day, hour, minute and second on two
  digits, and the year in decimal. Whether a year below 1000 is padded with zeros to
  four digits depends on the C library and on the version of Python (glibc does not
  pad): it is the parameter \<open>pad\<close>.
\<close>

definition digit_char :: "nat \<Rightarrow> char" where
  "digit_char k = ''0123456789'' ! (k mod 10)"

fun decimal :: "nat \<Rightarrow> string" where
  "decimal n = (if n < 10 then [digit_char n] else decimal (n div 10) @ [digit_char n])"

declare decimal.simps [simp del]

definition two_digits :: "nat \<Rightarrow> string" where
  "two_digits n = (if n < 10 then CHR ''0'' # decimal n else decimal n)"

definition year_digits :: "bool \<Rightarrow> nat \<Rightarrow> string" where
  "year_digits pad y =
     (if pad then replicate (4 - length (decimal y)) (CHR ''0'') @ decimal y else decimal y)"

definition strftime :: "bool \<Rightarrow> datetime \<Rightarrow> string" where
  "strftime pad a =
     year_digits pad (year a) @ ''-'' @ two_digits (month a) @ ''-'' @ two_digits (day a) @
     '' '' @ two_digits (hour a) @ '':'' @ two_digits (minute a) @ '':'' @ two_digits (second a)"

subsection \<open>The function\<close>

text \<open>
  Lines 256 to 260: the body of the loop, on one entry of the column. The test
  \<^verbatim>\<open>time_unix == 0\<close> holds of \<open>0\<close> and of \<^verbatim>\<open>False\<close>, and the function then appends
  the integer \<open>0\<close>. Otherwise it appends
  \<^verbatim>\<open>datetime.datetime.fromtimestamp(float(time_unix)).strftime('%Y-%m-%d %H:%M:%S')\<close>.
\<close>

definition append_timestamp ::
  "(string \<Rightarrow> int result) \<Rightarrow> (int \<Rightarrow> tm result) \<Rightarrow> bool \<Rightarrow> json \<Rightarrow> json list
     \<Rightarrow> json list result" where
  "append_timestamp float_str localtime pad time_unix timestamp' =
     (if py_key time_unix = JNum 0 then Inr (timestamp' @ [JNum 0])
      else py_bind (py_float float_str time_unix) (\<lambda>x.
           py_bind (fromtimestamp localtime x) (\<lambda>a.
           Inr (timestamp' @ [JStr (strftime pad a)]))))"

text \<open>
  Lines 248 to 263. The frame is the list of its columns by name; for a column that
  the frame does not have the function prints a message and returns \<^verbatim>\<open>None\<close>.
\<close>

definition convert_2_timestamp ::
  "(string \<Rightarrow> int result) \<Rightarrow> (int \<Rightarrow> tm result) \<Rightarrow> bool \<Rightarrow> string
     \<Rightarrow> (string \<times> json list) list \<Rightarrow> json list option result" where
  "convert_2_timestamp float_str localtime pad column data =
     (case map_of data column of
        Some col \<Rightarrow>
          py_bind (for_each (append_timestamp float_str localtime pad) col [])
            (\<lambda>ts. Inr (Some ts))
      | None \<Rightarrow> Inr None)"

subsection \<open>The form of the strings, and a host in UTC\<close>

text \<open>
  The form \<^verbatim>\<open>YYYY-MM-DD HH:MM:SS\<close>: nineteen characters, a digit wherever the
  pattern has a letter, and the punctuation of the pattern elsewhere.
\<close>

definition is_digit :: "char \<Rightarrow> bool" where
  "is_digit c = (c \<in> set ''0123456789'')"

definition mask :: "string \<Rightarrow> string" where
  "mask s = map (\<lambda>c. if is_digit c then CHR ''0'' else c) s"




section \<open>Properties of \<^verbatim>\<open>get_messages_dict\<close>\<close>

lemma py_bind_Inr_iff: "py_bind m f = Inr y \<longleftrightarrow> (\<exists>v. m = Inr v \<and> f v = Inr y)"
  by (cases m) (simp_all add: py_bind_def)

lemma py_bind_Inr [simp]: "py_bind (Inr v) f = f v"
  by (simp add: py_bind_def)

lemma py_bind_Inl [simp]: "py_bind (Inl e) f = Inl e"
  by (simp add: py_bind_def)

lemma append_msg_id_Inr: "append_msg_id m t = Inr (t\<lparr>msg_id := msg_id t @ [msg_id_of m]\<rparr>)"
  by (simp add: append_msg_id_def msg_id_of_def split: sum.splits)

lemma append_text_Inr:
  "append_text m t = Inr t' \<longleftrightarrow> (\<exists>v. py_getitem m ''text'' = Inr v \<and> t' = t\<lparr>text := text t @ [v]\<rparr>)"
  by (auto simp: append_text_def py_bind_Inr_iff)

lemma append_user_Inr:
  "append_user m t = Inr t' \<longleftrightarrow> (\<exists>v. py_getitem m ''user'' = Inr v \<and> t' = t\<lparr>user := user t @ [v]\<rparr>)"
  by (auto simp: append_user_def py_bind_Inr_iff)

lemma append_ts_Inr:
  "append_ts m t = Inr t' \<longleftrightarrow> (\<exists>v. py_getitem m ''ts'' = Inr v \<and> t' = t\<lparr>ts := ts t @ [v]\<rparr>)"
  by (auto simp: append_ts_def py_bind_Inr_iff)

lemma append_reactions_Inr:
  "append_reactions m t = Inr t' \<longleftrightarrow>
     (\<exists>v. t' = t\<lparr>reactions := reactions t @ [v]\<rparr> \<and>
          ((py_in ''reactions'' m = Inr True \<and> py_getitem m ''reactions'' = Inr v) \<or>
           (py_in ''reactions'' m = Inr False \<and> v = JNull)))"
  by (auto simp: append_reactions_def py_bind_Inr_iff)

lemma append_replies_to_Inr:
  "append_replies_to m t = Inr t' \<longleftrightarrow>
     (\<exists>v. t' = t\<lparr>replies_to := replies_to t @ [v]\<rparr> \<and>
          ((py_in ''parent_user_id'' m = Inr True \<and> py_getitem m ''ts'' = Inr v) \<or>
           (py_in ''parent_user_id'' m = Inr False \<and> v = JNull)))"
  by (auto simp: append_replies_to_def py_bind_Inr_iff)

lemma append_replies_Inr:
  "append_replies m t = Inr t' \<longleftrightarrow>
     (\<exists>v. t' = t\<lparr>replies := replies t @ [v]\<rparr> \<and>
          ((py_in ''thread_ts'' m = Inr True \<and> py_in ''reply_users'' m = Inr True \<and>
            py_getitem m ''replies'' = Inr v) \<or>
           (py_in ''thread_ts'' m = Inr True \<and> py_in ''reply_users'' m = Inr False \<and> v = JNull) \<or>
           (py_in ''thread_ts'' m = Inr False \<and> v = JNull)))"
  by (auto simp: append_replies_def py_bind_Inr_iff split: if_splits)

lemma append_blocks_Inr:
  "append_blocks m t = Inr t' \<longleftrightarrow>
     (\<exists>em me li lc. t' = t\<lparr>emojis := emojis t @ [em], mentions := mentions t @ [me],
                            links := links t @ [li], link_count := link_count t @ [lc]\<rparr> \<and>
        ((py_in ''blocks'' m = Inr False \<and> em = JNull \<and> me = JNull \<and> li = JNull \<and> lc = JNum 0) \<or>
         (py_in ''blocks'' m = Inr True \<and>
          (\<exists>blocks es ms n ls. py_getitem m ''blocks'' = Inr blocks \<and>
             py_for blocks scan_block ([], [], 0, []) = Inr (es, ms, n, ls) \<and>
             em = JArr es \<and> me = JArr ms \<and> li = JArr ls \<and> lc = JNum (int n)))))"
  by (auto simp: append_blocks_def py_bind_Inr_iff split: prod.splits)

lemma append_msg_cases:
  assumes "append_msg m t = Inr t'"
  obtains (skip) "py_in ''subtype'' m = Inr True" "t' = t"
  | (row) tx us tm re rt rp em me li lc where
      "py_in ''subtype'' m = Inr False"
      "py_getitem m ''text'' = Inr tx" "py_getitem m ''user'' = Inr us"
      "py_getitem m ''ts'' = Inr tm"
      "(py_in ''reactions'' m = Inr True \<and> py_getitem m ''reactions'' = Inr re) \<or>
       (py_in ''reactions'' m = Inr False \<and> re = JNull)"
      "(py_in ''parent_user_id'' m = Inr True \<and> rt = tm) \<or>
       (py_in ''parent_user_id'' m = Inr False \<and> rt = JNull)"
      "(py_in ''thread_ts'' m = Inr True \<and> py_in ''reply_users'' m = Inr True \<and>
            py_getitem m ''replies'' = Inr rp) \<or>
           (py_in ''thread_ts'' m = Inr True \<and> py_in ''reply_users'' m = Inr False \<and> rp = JNull) \<or>
           (py_in ''thread_ts'' m = Inr False \<and> rp = JNull)"
      "block_row m em me li lc"
      "t' = t\<lparr>msg_id := msg_id t @ [msg_id_of m], text := text t @ [tx], user := user t @ [us],
               ts := ts t @ [tm], reactions := reactions t @ [re],
               replies_to := replies_to t @ [rt], replies := replies t @ [rp],
               emojis := emojis t @ [em], mentions := mentions t @ [me],
               links := links t @ [li], link_count := link_count t @ [lc]\<rparr>"
proof -
  from assms obtain b where b: "py_in ''subtype'' m = Inr b"
    and rest: "(if \<not> b then
         py_bind (append_msg_id m t) (\<lambda>msg_list.
         py_bind (append_text m msg_list) (\<lambda>msg_list.
         py_bind (append_user m msg_list) (\<lambda>msg_list.
         py_bind (append_ts m msg_list) (\<lambda>msg_list.
         py_bind (append_reactions m msg_list) (\<lambda>msg_list.
         py_bind (append_replies_to m msg_list) (\<lambda>msg_list.
         py_bind (append_replies m msg_list) (\<lambda>msg_list.
         append_blocks m msg_list)))))))
       else Inr t) = Inr t'"
    unfolding append_msg_def py_bind_Inr_iff by blast
  show thesis
  proof (cases b)
    case True
    with b rest show thesis by (intro skip) simp_all
  next
    case False
    with rest obtain t1 t2 t3 t4 t5 t6 t7 where
      s1: "append_msg_id m t = Inr t1" and s2: "append_text m t1 = Inr t2" and
      s3: "append_user m t2 = Inr t3" and s4: "append_ts m t3 = Inr t4" and
      s5: "append_reactions m t4 = Inr t5" and s6: "append_replies_to m t5 = Inr t6" and
      s7: "append_replies m t6 = Inr t7" and s8: "append_blocks m t7 = Inr t'"
      by (auto simp: py_bind_Inr_iff)
    from s1 have e1: "t1 = t\<lparr>msg_id := msg_id t @ [msg_id_of m]\<rparr>"
      by (simp add: append_msg_id_Inr)
    from s2 obtain tx where x2: "py_getitem m ''text'' = Inr tx" and e2: "t2 = t1\<lparr>text := text t1 @ [tx]\<rparr>"
      unfolding append_text_Inr by blast
    from s3 obtain us where x3: "py_getitem m ''user'' = Inr us" and e3: "t3 = t2\<lparr>user := user t2 @ [us]\<rparr>"
      unfolding append_user_Inr by blast
    from s4 obtain tm where x4: "py_getitem m ''ts'' = Inr tm" and e4: "t4 = t3\<lparr>ts := ts t3 @ [tm]\<rparr>"
      unfolding append_ts_Inr by blast
    from s5 obtain re where e5: "t5 = t4\<lparr>reactions := reactions t4 @ [re]\<rparr>" and
      x5: "(py_in ''reactions'' m = Inr True \<and> py_getitem m ''reactions'' = Inr re) \<or>
       (py_in ''reactions'' m = Inr False \<and> re = JNull)"
      unfolding append_reactions_Inr by blast
    from s6 x4 obtain rt where e6: "t6 = t5\<lparr>replies_to := replies_to t5 @ [rt]\<rparr>" and
      x6: "(py_in ''parent_user_id'' m = Inr True \<and> rt = tm) \<or>
       (py_in ''parent_user_id'' m = Inr False \<and> rt = JNull)"
      unfolding append_replies_to_Inr by auto
    from s7 obtain rp where e7: "t7 = t6\<lparr>replies := replies t6 @ [rp]\<rparr>" and
      x7: "(py_in ''thread_ts'' m = Inr True \<and> py_in ''reply_users'' m = Inr True \<and>
            py_getitem m ''replies'' = Inr rp) \<or>
           (py_in ''thread_ts'' m = Inr True \<and> py_in ''reply_users'' m = Inr False \<and> rp = JNull) \<or>
           (py_in ''thread_ts'' m = Inr False \<and> rp = JNull)"
      unfolding append_replies_Inr by blast
    from s8 obtain em me li lc where
      e8: "t' = t7\<lparr>emojis := emojis t7 @ [em], mentions := mentions t7 @ [me],
                            links := links t7 @ [li], link_count := link_count t7 @ [lc]\<rparr>" and
      x8: "block_row m em me li lc"
      unfolding append_blocks_Inr block_row_def by blast
    have "t' = t\<lparr>msg_id := msg_id t @ [msg_id_of m], text := text t @ [tx], user := user t @ [us],
               ts := ts t @ [tm], reactions := reactions t @ [re],
               replies_to := replies_to t @ [rt], replies := replies t @ [rp],
               emojis := emojis t @ [em], mentions := mentions t @ [me],
               links := links t @ [li], link_count := link_count t @ [lc]\<rparr>"
      by (simp add: e1 e2 e3 e4 e5 e6 e7 e8)
    with b False x2 x3 x4 x5 x6 x7 x8 show thesis by (intro row) simp_all
  qed
qed

lemma for_each_column:
  assumes step: "\<And>m t t'. append_msg m t = Inr t' \<Longrightarrow>
            (py_in ''subtype'' m = Inr True \<and> c t' = c t) \<or>
            (py_in ''subtype'' m = Inr False \<and> (\<exists>v. c t' = c t @ [v] \<and> P m v))"
  shows "for_each append_msg msgs t = Inr t' \<Longrightarrow>
           \<exists>vs. c t' = c t @ vs \<and> list_all2 P (rows msgs) vs"
proof (induction msgs arbitrary: t)
  case Nil
  then show ?case by (simp add: rows_def)
next
  case (Cons m msgs)
  from Cons.prems obtain t1 where a: "append_msg m t = Inr t1"
    and b: "for_each append_msg msgs t1 = Inr t'"
    by (auto simp: py_bind_Inr_iff)
  from Cons.IH [OF b] obtain vs where vs: "c t' = c t1 @ vs" "list_all2 P (rows msgs) vs"
    by blast
  from step [OF a] show ?case
  proof
    assume "py_in ''subtype'' m = Inr True \<and> c t1 = c t"
    with vs show ?thesis by (auto simp: rows_def lacks_subtype_def)
  next
    assume "py_in ''subtype'' m = Inr False \<and> (\<exists>v. c t1 = c t @ [v] \<and> P m v)"
    then obtain v where "py_in ''subtype'' m = Inr False" "c t1 = c t @ [v]" "P m v" by blast
    with vs have "c t' = c t @ (v # vs) \<and> list_all2 P (rows (m # msgs)) (v # vs)"
      by (simp add: rows_def lacks_subtype_def)
    then show ?thesis by blast
  qed
qed

lemma table_column:
  assumes step: "\<And>m t t'. append_msg m t = Inr t' \<Longrightarrow>
            (py_in ''subtype'' m = Inr True \<and> c t' = c t) \<or>
            (py_in ''subtype'' m = Inr False \<and> (\<exists>v. c t' = c t @ [v] \<and> P m v))"
    and empty: "c empty_table = []"
    and ok: "get_messages_dict msgs = Inr tbl"
  shows "list_all2 P (rows msgs) (c tbl)"
  using for_each_column [of c P msgs empty_table tbl, OF step] ok empty
  by (auto simp: get_messages_dict_def)

lemma msg_id_column:
  "get_messages_dict msgs = Inr tbl \<Longrightarrow> list_all2 (\<lambda>m v. v = msg_id_of m) (rows msgs) (msg_id tbl)"
  by (rule table_column [where c = msg_id]) (auto elim!: append_msg_cases simp: empty_table_def)

lemma text_column:
  "get_messages_dict msgs = Inr tbl \<Longrightarrow>
     list_all2 (\<lambda>m v. py_getitem m ''text'' = Inr v) (rows msgs) (text tbl)"
  by (rule table_column [where c = "text"]) (auto elim!: append_msg_cases simp: empty_table_def)

lemma user_column:
  "get_messages_dict msgs = Inr tbl \<Longrightarrow>
     list_all2 (\<lambda>m v. py_getitem m ''user'' = Inr v) (rows msgs) (user tbl)"
  by (rule table_column [where c = user]) (auto elim!: append_msg_cases simp: empty_table_def)

lemma ts_column:
  "get_messages_dict msgs = Inr tbl \<Longrightarrow>
     list_all2 (\<lambda>m v. py_getitem m ''ts'' = Inr v) (rows msgs) (ts tbl)"
  by (rule table_column [where c = ts]) (auto elim!: append_msg_cases simp: empty_table_def)

lemma reactions_column:
  "get_messages_dict msgs = Inr tbl \<Longrightarrow>
     list_all2 (\<lambda>m v. True) (rows msgs) (reactions tbl)"
  by (rule table_column [where c = reactions]) (auto elim!: append_msg_cases simp: empty_table_def)

lemma replies_column:
  "get_messages_dict msgs = Inr tbl \<Longrightarrow>
     list_all2 (\<lambda>m v. True) (rows msgs) (replies tbl)"
  by (rule table_column [where c = replies]) (auto elim!: append_msg_cases simp: empty_table_def)

lemma replies_to_column:
  "get_messages_dict msgs = Inr tbl \<Longrightarrow>
     list_all2 (\<lambda>m v. True) (rows msgs) (replies_to tbl)"
  by (rule table_column [where c = replies_to]) (auto elim!: append_msg_cases simp: empty_table_def)

lemma attachments_column:
  "get_messages_dict msgs = Inr tbl \<Longrightarrow> attachments tbl = []"
proof -
  have "for_each append_msg msgs t = Inr t' \<Longrightarrow> attachments t' = attachments t" for t t'
  proof (induction msgs arbitrary: t)
    case Nil
    then show ?case by simp
  next
    case (Cons m msgs)
    then show ?case by (auto simp: py_bind_Inr_iff elim!: append_msg_cases)
  qed
  then show "get_messages_dict msgs = Inr tbl \<Longrightarrow> attachments tbl = []"
    by (fastforce simp: get_messages_dict_def empty_table_def)
qed

lemma emojis_column:
  "get_messages_dict msgs = Inr tbl \<Longrightarrow>
     list_all2 (\<lambda>m em. \<exists>me li lc. block_row m em me li lc) (rows msgs) (emojis tbl)"
  by (rule table_column [where c = emojis]) (auto elim!: append_msg_cases simp: empty_table_def)

lemma mentions_column:
  "get_messages_dict msgs = Inr tbl \<Longrightarrow>
     list_all2 (\<lambda>m me. \<exists>em li lc. block_row m em me li lc) (rows msgs) (mentions tbl)"
  by (rule table_column [where c = mentions]) (auto elim!: append_msg_cases simp: empty_table_def)

lemma links_column:
  "get_messages_dict msgs = Inr tbl \<Longrightarrow>
     list_all2 (\<lambda>m li. \<exists>em me lc. block_row m em me li lc) (rows msgs) (links tbl)"
  by (rule table_column [where c = links]) (auto elim!: append_msg_cases simp: empty_table_def)

lemma link_count_column:
  "get_messages_dict msgs = Inr tbl \<Longrightarrow>
     list_all2 (\<lambda>m lc. \<exists>em me li. block_row m em me li lc) (rows msgs) (link_count tbl)"
  by (rule table_column [where c = link_count]) (auto elim!: append_msg_cases simp: empty_table_def)

lemma block_row_unique:
  "block_row m em me li lc \<Longrightarrow> block_row m em' me' li' lc' \<Longrightarrow>
     em' = em \<and> me' = me \<and> li' = li \<and> lc' = lc"
  by (auto simp: block_row_def)

lemma block_row_at:
  assumes ok: "get_messages_dict msgs = Inr tbl" and i: "i < length (rows msgs)"
  shows "block_row (rows msgs ! i) (emojis tbl ! i) (mentions tbl ! i) (links tbl ! i)
           (link_count tbl ! i)"
proof -
  from list_all2_nthD [OF emojis_column [OF ok] i]
  obtain me li lc where a: "block_row (rows msgs ! i) (emojis tbl ! i) me li lc" by blast
  from list_all2_nthD [OF mentions_column [OF ok] i]
  obtain em1 li1 lc1 where b: "block_row (rows msgs ! i) em1 (mentions tbl ! i) li1 lc1" by blast
  from list_all2_nthD [OF links_column [OF ok] i]
  obtain em2 me2 lc2 where c: "block_row (rows msgs ! i) em2 me2 (links tbl ! i) lc2" by blast
  from list_all2_nthD [OF link_count_column [OF ok] i]
  obtain em3 me3 li3 where d: "block_row (rows msgs ! i) em3 me3 li3 (link_count tbl ! i)" by blast
  from block_row_unique [OF a b] block_row_unique [OF a c] block_row_unique [OF a d] a
  show ?thesis by simp
qed

lemma collected_Nil: "collected [] v v"
  by (simp add: collected_def split: prod.splits)

lemma collected_append:
  "collected xs v v' \<Longrightarrow> collected ys v' v'' \<Longrightarrow> collected (xs @ ys) v v''"
  by (auto simp: collected_def split: prod.splits)

lemma for_each_collected:
  assumes step: "\<And>x v v'. body x v = Inr v' \<Longrightarrow> collected (f x) v v'"
  shows "for_each body xs v = Inr v' \<Longrightarrow> collected (concat (map f xs)) v v'"
proof (induction xs arbitrary: v)
  case Nil
  then show ?case by (simp add: collected_Nil)
next
  case (Cons x xs)
  from Cons.prems obtain v1 where a: "body x v = Inr v1" and b: "for_each body xs v1 = Inr v'"
    by (auto simp: py_bind_Inr_iff)
  from collected_append [OF step [OF a] Cons.IH [OF b]] show ?case by simp
qed

lemma scan_sub_element_collected:
  assumes "scan_sub_element e v = Inr v'"
  shows "collected [e] v v'"
proof -
  obtain es ms n ls where v: "v = (es, ms, n, ls)" by (cases v) auto
  from assms obtain b where b: "py_in ''type'' e = Inr b"
    by (auto simp: scan_sub_element_def v py_bind_Inr_iff)
  show ?thesis
  proof (cases b)
    case False
    with assms b show ?thesis
      by (auto simp: scan_sub_element_def v collected_def has_type_def)
  next
    case True
    with assms b obtain t where t: "py_getitem e ''type'' = Inr t"
      by (auto simp: scan_sub_element_def v py_bind_Inr_iff)
    with assms b True show ?thesis
      by (auto simp: scan_sub_element_def v collected_def has_type_def py_bind_Inr_iff
               split: if_splits)
  qed
qed

lemma py_for_collected:
  assumes step: "\<And>x v v'. body x v = Inr v' \<Longrightarrow> collected (f x) v v'"
    and run: "py_for c body v = Inr v'"
  shows "collected (concat (map f (items c))) v v'"
proof -
  from run obtain xs where xs: "py_iter c = Inr xs" and r: "for_each body xs v = Inr v'"
    by (auto simp: py_for_def py_bind_Inr_iff)
  from for_each_collected [of body f, OF step r] xs show ?thesis
    by (simp add: items_def)
qed

lemma scan_element_collected:
  assumes "scan_element e v = Inr v'"
  shows "collected (children e) v v'"
proof -
  from assms obtain b where b: "py_in ''elements'' e = Inr b"
    by (auto simp: scan_element_def py_bind_Inr_iff)
  show ?thesis
  proof (cases b)
    case False
    with assms b show ?thesis by (simp add: scan_element_def children_def collected_Nil)
  next
    case True
    with assms b obtain c where c: "py_getitem e ''elements'' = Inr c"
      and r: "py_for c scan_sub_element v = Inr v'"
      by (auto simp: scan_element_def py_bind_Inr_iff)
    from py_for_collected [of scan_sub_element "\<lambda>x. [x]", OF scan_sub_element_collected r]
    have "collected (items c) v v'" by simp
    with b True c show ?thesis by (simp add: children_def)
  qed
qed

lemma scan_block_collected:
  assumes "scan_block blk v = Inr v'"
  shows "collected (concat (map children (children blk))) v v'"
proof -
  from assms obtain b where b: "py_in ''elements'' blk = Inr b"
    by (auto simp: scan_block_def py_bind_Inr_iff)
  show ?thesis
  proof (cases b)
    case False
    with assms b show ?thesis by (simp add: scan_block_def children_def collected_Nil)
  next
    case True
    with assms b obtain c where c: "py_getitem blk ''elements'' = Inr c"
      and r: "py_for c scan_element v = Inr v'"
      by (auto simp: scan_block_def py_bind_Inr_iff)
    from py_for_collected [of scan_element children, OF scan_element_collected r]
    have "collected (concat (map children (items c))) v v'" .
    with b True c show ?thesis by (simp add: children_def)
  qed
qed

lemma concat_map_concat:
  "concat (map f (concat (map g xs))) = concat (map (\<lambda>x. concat (map f (g x))) xs)"
  by (induction xs) simp_all

lemma blocks_collected:
  assumes "py_for blocks scan_block v = Inr v'"
  shows "collected (sub_elements blocks) v v'"
proof -
  from py_for_collected [of scan_block "\<lambda>b. concat (map children (children b))",
      OF scan_block_collected assms]
  show ?thesis by (simp add: sub_elements_def concat_map_concat)
qed

lemma subtype_decided:
  "for_each append_msg msgs t = Inr t' \<Longrightarrow> m \<in> set msgs \<Longrightarrow> has_subtype m \<or> lacks_subtype m"
proof (induction msgs arbitrary: t)
  case Nil
  then show ?case by simp
next
  case (Cons x msgs)
  from Cons.prems(1) obtain t1 where a: "append_msg x t = Inr t1"
    and b: "for_each append_msg msgs t1 = Inr t'"
    by (auto simp: py_bind_Inr_iff)
  from a have "has_subtype x \<or> lacks_subtype x"
    by (auto elim!: append_msg_cases simp: has_subtype_def lacks_subtype_def)
  with Cons.IH [OF b] Cons.prems(2) show ?case by auto
qed

lemma partition_length:
  "\<forall>m\<in>set xs. P m \<or> Q m \<Longrightarrow> \<forall>m\<in>set xs. \<not> (P m \<and> Q m) \<Longrightarrow>
     length (filter P xs) + length (filter Q xs) = length xs"
  by (induction xs) auto

lemma list_all2_eq_map: "list_all2 (\<lambda>x y. y = f x) xs ys \<Longrightarrow> ys = map f xs"
  by (induction rule: list_all2_induct) simp_all

lemma list_all2_Inr_map: "list_all2 (\<lambda>x y. f x = Inr y) xs ys \<Longrightarrow> map Inr ys = map f xs"
  by (induction rule: list_all2_induct) simp_all

text \<open>
  Claim C10. When \<^verbatim>\<open>get_messages_dict\<close> returns, the lists under \<^verbatim>\<open>msg_id\<close>,
  \<^verbatim>\<open>text\<close>, \<^verbatim>\<open>user\<close>, \<^verbatim>\<open>mentions\<close>, \<^verbatim>\<open>emojis\<close>, \<^verbatim>\<open>reactions\<close>,
  \<^verbatim>\<open>replies\<close>, \<^verbatim>\<open>replies_to\<close>, \<^verbatim>\<open>ts\<close>, \<^verbatim>\<open>links\<close> and \<^verbatim>\<open>link_count\<close> all
  have the length of the list of input messages that lack a \<^verbatim>\<open>subtype\<close> field, and
  the list under \<^verbatim>\<open>attachments\<close> is empty.
\<close>

theorem table_lengths:
  assumes "get_messages_dict msgs = Inr tbl"
  shows "length (msg_id tbl) = length (rows msgs) \<and> length (text tbl) = length (rows msgs) \<and>
         length (user tbl) = length (rows msgs) \<and> length (mentions tbl) = length (rows msgs) \<and>
         length (emojis tbl) = length (rows msgs) \<and> length (reactions tbl) = length (rows msgs) \<and>
         length (replies tbl) = length (rows msgs) \<and> length (replies_to tbl) = length (rows msgs) \<and>
         length (ts tbl) = length (rows msgs) \<and> length (links tbl) = length (rows msgs) \<and>
         length (link_count tbl) = length (rows msgs) \<and> attachments tbl = []"
  using list_all2_lengthD [OF msg_id_column [OF assms]] list_all2_lengthD [OF text_column [OF assms]]
    list_all2_lengthD [OF user_column [OF assms]] list_all2_lengthD [OF mentions_column [OF assms]]
    list_all2_lengthD [OF emojis_column [OF assms]] list_all2_lengthD [OF reactions_column [OF assms]]
    list_all2_lengthD [OF replies_column [OF assms]] list_all2_lengthD [OF replies_to_column [OF assms]]
    list_all2_lengthD [OF ts_column [OF assms]] list_all2_lengthD [OF links_column [OF assms]]
    list_all2_lengthD [OF link_count_column [OF assms]] attachments_column [OF assms]
  by simp

theorem table_lengths_witness:
  "get_messages_dict example_msgs = Inr example_table \<and>
   length (msg_id example_table) = length (rows example_msgs) \<and>
   length (link_count example_table) = length (rows example_msgs) \<and>
   attachments example_table = []"
proof -
  have h: "get_messages_dict example_msgs = Inr example_table" by code_simp
  from table_lengths [OF h] h show ?thesis by simp
qed

text \<open>
  Claim C2. When \<^verbatim>\<open>get_messages_dict\<close> returns, the rows of the table are the input
  messages that lack a \<^verbatim>\<open>subtype\<close> field, one row each and in input order: the
  identifier, text, sender and timestamp columns hold, row by row, the
  \<^verbatim>\<open>client_msg_id\<close> (or \<^verbatim>\<open>None\<close>), \<^verbatim>\<open>text\<close>, \<^verbatim>\<open>user\<close> and \<^verbatim>\<open>ts\<close> of these
  messages. Every other message has a \<^verbatim>\<open>subtype\<close> field and gives no row: the two
  kinds add up to the input.
\<close>

theorem one_row_per_message:
  assumes "get_messages_dict msgs = Inr tbl"
  shows "msg_id tbl = map msg_id_of (rows msgs) \<and>
         map Inr (text tbl) = map (\<lambda>m. py_getitem m ''text'') (rows msgs) \<and>
         map Inr (user tbl) = map (\<lambda>m. py_getitem m ''user'') (rows msgs) \<and>
         map Inr (ts tbl) = map (\<lambda>m. py_getitem m ''ts'') (rows msgs) \<and>
         length (filter has_subtype msgs) + length (rows msgs) = length msgs"
proof -
  from assms have "\<forall>m\<in>set msgs. has_subtype m \<or> lacks_subtype m"
    by (auto simp: get_messages_dict_def dest: subtype_decided)
  moreover have "\<forall>m\<in>set msgs. \<not> (has_subtype m \<and> lacks_subtype m)"
    by (simp add: has_subtype_def lacks_subtype_def)
  ultimately have "length (filter has_subtype msgs) + length (rows msgs) = length msgs"
    unfolding rows_def by (rule partition_length)
  with list_all2_eq_map [OF msg_id_column [OF assms]] list_all2_Inr_map [OF text_column [OF assms]]
    list_all2_Inr_map [OF user_column [OF assms]] list_all2_Inr_map [OF ts_column [OF assms]]
  show ?thesis by simp
qed

theorem one_row_per_message_witness:
  "get_messages_dict example_msgs = Inr example_table \<and>
   msg_id example_table = map msg_id_of (rows example_msgs) \<and>
   map Inr (text example_table) = map (\<lambda>m. py_getitem m ''text'') (rows example_msgs) \<and>
   length (filter has_subtype example_msgs) + length (rows example_msgs) = length example_msgs"
proof -
  have h: "get_messages_dict example_msgs = Inr example_table" by code_simp
  from one_row_per_message [OF h] h show ?thesis by simp
qed

text \<open>
  Claim C7. In the table that \<^verbatim>\<open>get_messages_dict\<close> returns, the row of a message
  without a \<^verbatim>\<open>subtype\<close> field and without a \<^verbatim>\<open>blocks\<close> key has \<^verbatim>\<open>None\<close> for
  its mentions, emojis and links and \<open>0\<close> for its link count.
\<close>

theorem no_blocks_defaults:
  assumes "get_messages_dict msgs = Inr tbl" and "i < length (rows msgs)"
    and "py_in ''blocks'' (rows msgs ! i) = Inr False"
  shows "mentions tbl ! i = JNull \<and> emojis tbl ! i = JNull \<and> links tbl ! i = JNull \<and>
         link_count tbl ! i = JNum 0"
  using block_row_at [OF assms(1,2)] assms(3) by (simp add: block_row_def)

theorem no_blocks_defaults_witness:
  "get_messages_dict example_msgs = Inr example_table \<and> 1 < length (rows example_msgs) \<and>
   py_in ''blocks'' (rows example_msgs ! 1) = Inr False \<and>
   mentions example_table ! 1 = JNull \<and> emojis example_table ! 1 = JNull \<and>
   links example_table ! 1 = JNull \<and> link_count example_table ! 1 = JNum 0"
proof -
  have h1: "get_messages_dict example_msgs = Inr example_table" by code_simp
  have h2: "1 < length (rows example_msgs)" by code_simp
  have h3: "py_in ''blocks'' (rows example_msgs ! 1) = Inr False" by code_simp
  from no_blocks_defaults [OF h1 h2 h3] h1 h2 h3 show ?thesis by simp
qed

text \<open>
  Claim C1. In the table that \<^verbatim>\<open>get_messages_dict\<close> returns, the row of a message
  with a \<^verbatim>\<open>blocks\<close> key has, for its mentions, the \<^verbatim>\<open>user_id\<close> of exactly the
  sub-elements of the two-level walk whose type tag is \<^verbatim>\<open>user\<close>, in walk order; for
  its emojis the \<^verbatim>\<open>name\<close> of exactly those tagged \<^verbatim>\<open>emoji\<close>; for its links the
  \<^verbatim>\<open>url\<close> of exactly those tagged \<^verbatim>\<open>link\<close>; and its link count is the length of
  its list of links.
\<close>

theorem blocks_extracted:
  assumes "get_messages_dict msgs = Inr tbl" and "i < length (rows msgs)"
    and "py_in ''blocks'' (rows msgs ! i) = Inr True"
  shows "\<exists>blocks ms es ls.
           py_getitem (rows msgs ! i) ''blocks'' = Inr blocks \<and>
           mentions tbl ! i = JArr ms \<and>
           map Inr ms = map (\<lambda>e. py_getitem e ''user_id'')
                          (filter (has_type ''user'') (sub_elements blocks)) \<and>
           emojis tbl ! i = JArr es \<and>
           map Inr es = map (\<lambda>e. py_getitem e ''name'')
                          (filter (has_type ''emoji'') (sub_elements blocks)) \<and>
           links tbl ! i = JArr ls \<and>
           map Inr ls = map (\<lambda>e. py_getitem e ''url'')
                          (filter (has_type ''link'') (sub_elements blocks)) \<and>
           link_count tbl ! i = JNum (int (length ls))"
proof -
  from block_row_at [OF assms(1,2)] assms(3)
  obtain blocks es ms n ls where b: "py_getitem (rows msgs ! i) ''blocks'' = Inr blocks"
    and r: "py_for blocks scan_block ([], [], 0, []) = Inr (es, ms, n, ls)"
    and c: "emojis tbl ! i = JArr es" "mentions tbl ! i = JArr ms" "links tbl ! i = JArr ls"
      "link_count tbl ! i = JNum (int n)"
    by (auto simp: block_row_def)
  from blocks_collected [OF r]
  have m: "map Inr es = map (\<lambda>e. py_getitem e ''name'')
                          (filter (has_type ''emoji'') (sub_elements blocks))"
    "map Inr ms = map (\<lambda>e. py_getitem e ''user_id'')
                          (filter (has_type ''user'') (sub_elements blocks))"
    "map Inr ls = map (\<lambda>e. py_getitem e ''url'')
                          (filter (has_type ''link'') (sub_elements blocks))"
    "n = length (filter (has_type ''link'') (sub_elements blocks))"
    by (simp_all add: collected_def)
  from m(3) have "length ls = length (filter (has_type ''link'') (sub_elements blocks))"
    by (metis length_map)
  with m(4) c(4) have "link_count tbl ! i = JNum (int (length ls))" by simp
  with b c(1-3) m(1-3) show ?thesis by blast
qed

theorem blocks_extracted_witness:
  "get_messages_dict example_msgs = Inr example_table \<and> 0 < length (rows example_msgs) \<and>
   py_in ''blocks'' (rows example_msgs ! 0) = Inr True \<and>
   (\<exists>blocks ms es ls.
           py_getitem (rows example_msgs ! 0) ''blocks'' = Inr blocks \<and>
           mentions example_table ! 0 = JArr ms \<and>
           map Inr ms = map (\<lambda>e. py_getitem e ''user_id'')
                          (filter (has_type ''user'') (sub_elements blocks)) \<and>
           emojis example_table ! 0 = JArr es \<and>
           map Inr es = map (\<lambda>e. py_getitem e ''name'')
                          (filter (has_type ''emoji'') (sub_elements blocks)) \<and>
           links example_table ! 0 = JArr ls \<and>
           map Inr ls = map (\<lambda>e. py_getitem e ''url'')
                          (filter (has_type ''link'') (sub_elements blocks)) \<and>
           link_count example_table ! 0 = JNum (int (length ls)))"
proof -
  have h1: "get_messages_dict example_msgs = Inr example_table" by code_simp
  have h2: "0 < length (rows example_msgs)" by code_simp
  have h3: "py_in ''blocks'' (rows example_msgs ! 0) = Inr True" by code_simp
  from blocks_extracted [OF h1 h2 h3] h1 h2 h3 show ?thesis by blast
qed

section \<open>Missing fields\<close>

lemma succeeds_iff: "succeeds r \<longleftrightarrow> (\<exists>v. r = Inr v)"
  by (cases r) (simp_all add: succeeds_def)

lemma getitem_is_object: "py_getitem m k = Inr v \<Longrightarrow> \<exists>kvs. m = JObj kvs"
  by (cases m) simp_all

lemma object_in: "py_in k (JObj kvs) = Inr True \<or> py_in k (JObj kvs) = Inr False"
  by (cases "map_of kvs k") simp_all

lemma object_in_getitem: "py_in k (JObj kvs) = Inr True \<Longrightarrow> \<exists>v. py_getitem (JObj kvs) k = Inr v"
  by auto

lemma not_in_getitem: "py_in k m = Inr False \<Longrightarrow> \<exists>e. py_getitem m k = Inl e"
  by (cases m) auto

lemma append_msg_extractable:
  assumes "extractable m"
  shows "\<exists>t'. append_msg m t = Inr t'"
proof (cases "has_subtype m")
  case True
  then show ?thesis by (simp add: append_msg_def has_subtype_def)
next
  case False
  with assms have ns: "py_in ''subtype'' m = Inr False"
    and tx: "succeeds (py_getitem m ''text'')" and us: "succeeds (py_getitem m ''user'')"
    and tm: "succeeds (py_getitem m ''ts'')"
    and rp: "py_in ''thread_ts'' m = Inr True \<and> py_in ''reply_users'' m = Inr True \<Longrightarrow>
               succeeds (py_getitem m ''replies'')"
    and bl: "py_in ''blocks'' m = Inr True \<Longrightarrow>
               succeeds (py_bind (py_getitem m ''blocks'') (\<lambda>b. py_for b scan_block ([], [], 0, [])))"
    by (auto simp: extractable_def lacks_subtype_def split: if_splits)
  from tx obtain kvs where m: "m = JObj kvs"
    by (auto simp: succeeds_iff dest: getitem_is_object)
  have s1: "\<exists>t'. append_msg_id m t = Inr t'" for t
    by (simp add: append_msg_id_Inr)
  have s2: "\<exists>t'. append_text m t = Inr t'" for t
    using tx by (auto simp: append_text_Inr succeeds_iff)
  have s3: "\<exists>t'. append_user m t = Inr t'" for t
    using us by (auto simp: append_user_Inr succeeds_iff)
  have s4: "\<exists>t'. append_ts m t = Inr t'" for t
    using tm by (auto simp: append_ts_Inr succeeds_iff)
  have s5: "\<exists>t'. append_reactions m t = Inr t'" for t
    using object_in [of "''reactions''" kvs] object_in_getitem [of "''reactions''" kvs]
    unfolding append_reactions_Inr m by blast
  have s6: "\<exists>t'. append_replies_to m t = Inr t'" for t
    using object_in [of "''parent_user_id''" kvs] tm
    unfolding append_replies_to_Inr m succeeds_iff by blast
  have s7: "\<exists>t'. append_replies m t = Inr t'" for t
    using object_in [of "''thread_ts''" kvs] object_in [of "''reply_users''" kvs] rp
    unfolding append_replies_Inr m succeeds_iff by blast
  have s8: "\<exists>t'. append_blocks m t = Inr t'" for t
    using object_in [of "''blocks''" kvs] bl
    unfolding append_blocks_Inr m succeeds_iff py_bind_Inr_iff by (metis prod_cases4)
  from s1 obtain t1 where t1: "append_msg_id m t = Inr t1" by blast
  from s2 obtain t2 where t2: "append_text m t1 = Inr t2" by blast
  from s3 obtain t3 where t3: "append_user m t2 = Inr t3" by blast
  from s4 obtain t4 where t4: "append_ts m t3 = Inr t4" by blast
  from s5 obtain t5 where t5: "append_reactions m t4 = Inr t5" by blast
  from s6 obtain t6 where t6: "append_replies_to m t5 = Inr t6" by blast
  from s7 obtain t7 where t7: "append_replies m t6 = Inr t7" by blast
  from s8 obtain t8 where t8: "append_blocks m t7 = Inr t8" by blast
  from ns t1 t2 t3 t4 t5 t6 t7 t8 show ?thesis
    by (simp add: append_msg_def)
qed

lemma for_each_extractable:
  "list_all extractable msgs \<Longrightarrow> \<exists>t'. for_each append_msg msgs t = Inr t'"
proof (induction msgs arbitrary: t)
  case Nil
  then show ?case by simp
next
  case (Cons m msgs)
  from Cons.prems have "extractable m" and rest: "list_all extractable msgs" by simp_all
  from append_msg_extractable [OF this(1)] obtain t1 where "append_msg m t = Inr t1" by blast
  with Cons.IH [OF rest, of t1] show ?case by simp
qed

lemma reactions_default:
  "get_messages_dict msgs = Inr tbl \<Longrightarrow>
     list_all2 (\<lambda>m v. py_in ''reactions'' m = Inr False \<longrightarrow> v = JNull) (rows msgs) (reactions tbl)"
  by (rule table_column [where c = reactions]) (auto elim!: append_msg_cases simp: empty_table_def)

lemma replies_to_default:
  "get_messages_dict msgs = Inr tbl \<Longrightarrow>
     list_all2 (\<lambda>m v. py_in ''parent_user_id'' m = Inr False \<longrightarrow> v = JNull) (rows msgs)
       (replies_to tbl)"
  by (rule table_column [where c = replies_to]) (auto elim!: append_msg_cases simp: empty_table_def)

lemma replies_default:
  "get_messages_dict msgs = Inr tbl \<Longrightarrow>
     list_all2 (\<lambda>m v. py_in ''thread_ts'' m = Inr False \<or> py_in ''reply_users'' m = Inr False
                  \<longrightarrow> v = JNull) (rows msgs) (replies tbl)"
  by (rule table_column [where c = replies]) (auto elim!: append_msg_cases simp: empty_table_def)

lemma msg_id_default:
  assumes "get_messages_dict msgs = Inr tbl" and "i < length (rows msgs)"
    and "py_in ''client_msg_id'' (rows msgs ! i) = Inr False"
  shows "msg_id tbl ! i = JNull"
proof -
  from list_all2_nthD [OF msg_id_column [OF assms(1)] assms(2)]
  have "msg_id tbl ! i = msg_id_of (rows msgs ! i)" .
  with not_in_getitem [OF assms(3)] show ?thesis by (auto simp: msg_id_of_def)
qed

lemma append_msg_needs_extractable:
  assumes "append_msg m t = Inr t'"
  shows "extractable m"
  using assms
proof (cases rule: append_msg_cases)
  case skip
  then show ?thesis by (simp add: extractable_def has_subtype_def)
next
  case (row tx us tm re rt rp em me li lc)
  from row(7) have "py_in ''thread_ts'' m = Inr True \<and> py_in ''reply_users'' m = Inr True
      \<longrightarrow> succeeds (py_getitem m ''replies'')"
    by (auto simp: succeeds_def)
  moreover from row(8) have "py_in ''blocks'' m = Inr True
      \<longrightarrow> succeeds (py_bind (py_getitem m ''blocks'') (\<lambda>b. py_for b scan_block ([], [], 0, [])))"
    by (auto simp: block_row_def succeeds_def)
  ultimately show ?thesis
    using row(1-4) by (simp add: extractable_def lacks_subtype_def succeeds_def)
qed

text \<open>
  \<^verbatim>\<open>get_messages_dict\<close> returns exactly on the lists of messages on which the loop
  body does not raise.
\<close>

lemma get_messages_dict_returns_iff:
  "(\<exists>tbl. get_messages_dict msgs = Inr tbl) \<longleftrightarrow> list_all extractable msgs"
proof
  assume "\<exists>tbl. get_messages_dict msgs = Inr tbl"
  then obtain tbl where "for_each append_msg msgs empty_table = Inr tbl"
    by (auto simp: get_messages_dict_def)
  then show "list_all extractable msgs"
  proof (induction msgs arbitrary: tbl rule: rev_induct)
    case Nil
    show ?case by simp
  next
    case (snoc m msgs)
    have split: "for_each f (xs @ [x]) s = py_bind (for_each f xs s) (f x)" for f :: "json \<Rightarrow> msg_table \<Rightarrow> msg_table result" and xs x s
      by (induction xs arbitrary: s) (auto simp: py_bind_def split: sum.splits)
    from snoc.prems obtain t1 where a: "for_each append_msg msgs empty_table = Inr t1"
      and b: "append_msg m t1 = Inr tbl"
      by (auto simp: split py_bind_Inr_iff)
    from snoc.IH [OF a] append_msg_needs_extractable [OF b] show ?case by simp
  qed
next
  assume "list_all extractable msgs"
  from for_each_extractable [OF this, of empty_table]
  show "\<exists>tbl. get_messages_dict msgs = Inr tbl"
    by (simp add: get_messages_dict_def)
qed

text \<open>
  Claim C5 as stated fails: a message without \<^verbatim>\<open>subtype\<close> and without \<^verbatim>\<open>text\<close>
  makes \<^verbatim>\<open>get_messages_dict\<close> raise \<^verbatim>\<open>KeyError\<close>; no row falls back to a default.
\<close>

theorem missing_text_raises:
  "lacks_subtype missing_text_msg \<and> get_messages_dict [missing_text_msg] = Inl KeyError"
  by code_simp

text \<open>
  Claim C5, amended. On messages that each have a \<^verbatim>\<open>subtype\<close>, or have
  \<^verbatim>\<open>text\<close>, \<^verbatim>\<open>user\<close> and \<^verbatim>\<open>ts\<close>, have \<^verbatim>\<open>replies\<close> when they have both
  \<^verbatim>\<open>thread_ts\<close> and \<^verbatim>\<open>reply_users\<close>, and have blocks that can be walked when they
  have blocks, \<^verbatim>\<open>get_messages_dict\<close> does not raise, and in each row a missing
  \<^verbatim>\<open>client_msg_id\<close>, \<^verbatim>\<open>reactions\<close>, \<^verbatim>\<open>parent_user_id\<close>, thread marker or
  \<^verbatim>\<open>blocks\<close> falls back to \<^verbatim>\<open>None\<close> (to \<open>0\<close> for the link count).
\<close>

theorem optional_fields_default:
  assumes "list_all extractable msgs"
  shows "\<exists>tbl. get_messages_dict msgs = Inr tbl \<and>
           (\<forall>i<length (rows msgs).
              (py_in ''client_msg_id'' (rows msgs ! i) = Inr False \<longrightarrow> msg_id tbl ! i = JNull) \<and>
              (py_in ''reactions'' (rows msgs ! i) = Inr False \<longrightarrow> reactions tbl ! i = JNull) \<and>
              (py_in ''parent_user_id'' (rows msgs ! i) = Inr False \<longrightarrow>
                 replies_to tbl ! i = JNull) \<and>
              (py_in ''thread_ts'' (rows msgs ! i) = Inr False \<or>
               py_in ''reply_users'' (rows msgs ! i) = Inr False \<longrightarrow> replies tbl ! i = JNull) \<and>
              (py_in ''blocks'' (rows msgs ! i) = Inr False \<longrightarrow>
                 mentions tbl ! i = JNull \<and> emojis tbl ! i = JNull \<and> links tbl ! i = JNull \<and>
                 link_count tbl ! i = JNum 0))"
proof -
  from for_each_extractable [OF assms, of empty_table]
  obtain tbl where ok: "get_messages_dict msgs = Inr tbl"
    by (auto simp: get_messages_dict_def)
  have "(py_in ''client_msg_id'' (rows msgs ! i) = Inr False \<longrightarrow> msg_id tbl ! i = JNull) \<and>
        (py_in ''reactions'' (rows msgs ! i) = Inr False \<longrightarrow> reactions tbl ! i = JNull) \<and>
        (py_in ''parent_user_id'' (rows msgs ! i) = Inr False \<longrightarrow> replies_to tbl ! i = JNull) \<and>
        (py_in ''thread_ts'' (rows msgs ! i) = Inr False \<or>
         py_in ''reply_users'' (rows msgs ! i) = Inr False \<longrightarrow> replies tbl ! i = JNull) \<and>
        (py_in ''blocks'' (rows msgs ! i) = Inr False \<longrightarrow>
           mentions tbl ! i = JNull \<and> emojis tbl ! i = JNull \<and> links tbl ! i = JNull \<and>
           link_count tbl ! i = JNum 0)"
    if i: "i < length (rows msgs)" for i
    using msg_id_default [OF ok i]
      list_all2_nthD [OF reactions_default [OF ok] i]
      list_all2_nthD [OF replies_to_default [OF ok] i]
      list_all2_nthD [OF replies_default [OF ok] i]
      block_row_at [OF ok i]
    by (auto simp: block_row_def)
  with ok show ?thesis by blast
qed

theorem optional_fields_default_witness:
  "list_all extractable example_msgs \<and>
   (\<exists>tbl. get_messages_dict example_msgs = Inr tbl \<and> 1 < length (rows example_msgs) \<and>
      py_in ''client_msg_id'' (rows example_msgs ! 1) = Inr False \<and> msg_id tbl ! 1 = JNull \<and>
      py_in ''reactions'' (rows example_msgs ! 1) = Inr False \<and> reactions tbl ! 1 = JNull \<and>
      py_in ''parent_user_id'' (rows example_msgs ! 1) = Inr False \<and> replies_to tbl ! 1 = JNull \<and>
      py_in ''thread_ts'' (rows example_msgs ! 1) = Inr False \<and> replies tbl ! 1 = JNull \<and>
      py_in ''blocks'' (rows example_msgs ! 1) = Inr False \<and> mentions tbl ! 1 = JNull \<and>
      emojis tbl ! 1 = JNull \<and> links tbl ! 1 = JNull \<and> link_count tbl ! 1 = JNum 0)"
proof -
  have h: "list_all extractable example_msgs" by code_simp
  have f: "1 < length (rows example_msgs)"
    "py_in ''client_msg_id'' (rows example_msgs ! 1) = Inr False"
    "py_in ''reactions'' (rows example_msgs ! 1) = Inr False"
    "py_in ''parent_user_id'' (rows example_msgs ! 1) = Inr False"
    "py_in ''thread_ts'' (rows example_msgs ! 1) = Inr False"
    "py_in ''blocks'' (rows example_msgs ! 1) = Inr False"
    by code_simp+
  from optional_fields_default [OF h] obtain tbl where
    "get_messages_dict example_msgs = Inr tbl" and
    "\<forall>i<length (rows example_msgs).
              (py_in ''client_msg_id'' (rows example_msgs ! i) = Inr False \<longrightarrow> msg_id tbl ! i = JNull) \<and>
              (py_in ''reactions'' (rows example_msgs ! i) = Inr False \<longrightarrow> reactions tbl ! i = JNull) \<and>
              (py_in ''parent_user_id'' (rows example_msgs ! i) = Inr False \<longrightarrow>
                 replies_to tbl ! i = JNull) \<and>
              (py_in ''thread_ts'' (rows example_msgs ! i) = Inr False \<or>
               py_in ''reply_users'' (rows example_msgs ! i) = Inr False \<longrightarrow> replies tbl ! i = JNull) \<and>
              (py_in ''blocks'' (rows example_msgs ! i) = Inr False \<longrightarrow>
                 mentions tbl ! i = JNull \<and> emojis tbl ! i = JNull \<and> links tbl ! i = JNull \<and>
                 link_count tbl ! i = JNum 0)"
    by blast
  with h f show ?thesis by blast
qed

lemma is_dict_iff: "is_dict v \<longleftrightarrow> (\<exists>kvs. v = JObj kvs)"
  by (cases v) simp_all

lemma for_each_succeeds:
  assumes "\<And>x s. x \<in> set xs \<Longrightarrow> \<exists>s'. body x s = Inr s'"
  shows "\<exists>s'. for_each body xs s = Inr s'"
  using assms
proof (induction xs arbitrary: s)
  case Nil
  show ?case by simp
next
  case (Cons x xs)
  from Cons.prems [of x s] obtain s1 where "body x s = Inr s1" by auto
  moreover from Cons.IH [of s1] Cons.prems obtain s' where "for_each body xs s1 = Inr s'"
    by auto
  ultimately show ?case by simp
qed

lemma scan_sub_element_ok:
  assumes "sub_element_ok e"
  shows "\<exists>v'. scan_sub_element e v = Inr v'"
proof -
  obtain es ms n ls where v: "v = (es, ms, n, ls)" by (cases v) auto
  from assms obtain kvs where e: "e = JObj kvs" by (auto simp: sub_element_ok_def is_dict_iff)
  show ?thesis
  proof (cases "py_in ''type'' e = Inr True")
    case False
    with object_in [of "''type''" kvs] have "py_in ''type'' e = Inr False" by (simp add: e)
    then show ?thesis by (simp add: scan_sub_element_def v)
  next
    case True
    with object_in_getitem [of "''type''" kvs] obtain t where t: "py_getitem e ''type'' = Inr t"
      by (auto simp: e)
    from assms True t have
      a: "t = JStr ''emoji'' \<Longrightarrow> \<exists>x. py_getitem e ''name'' = Inr x" and
      b: "t = JStr ''user'' \<Longrightarrow> \<exists>x. py_getitem e ''user_id'' = Inr x" and
      c: "t = JStr ''link'' \<Longrightarrow> \<exists>x. py_getitem e ''url'' = Inr x"
      by (auto simp: sub_element_ok_def has_type_def succeeds_iff split: if_splits)
    have "\<exists>es'. (if t = JStr ''emoji''
                  then py_bind (py_getitem e ''name'') (\<lambda>x. Inr (es @ [x]))
                  else Inr es) = Inr es'"
      using a by (cases "t = JStr ''emoji''") auto
    then obtain es' where s1: "(if t = JStr ''emoji''
                  then py_bind (py_getitem e ''name'') (\<lambda>x. Inr (es @ [x]))
                  else Inr es) = Inr es'" by blast
    have "\<exists>ms'. (if t = JStr ''user''
                  then py_bind (py_getitem e ''user_id'') (\<lambda>x. Inr (ms @ [x]))
                  else Inr ms) = Inr ms'"
      using b by (cases "t = JStr ''user''") auto
    then obtain ms' where s2: "(if t = JStr ''user''
                  then py_bind (py_getitem e ''user_id'') (\<lambda>x. Inr (ms @ [x]))
                  else Inr ms) = Inr ms'" by blast
    have "\<exists>r. (if t = JStr ''link''
         then py_bind (py_getitem e ''url'')
                (\<lambda>x. Inr (es', ms', n + 1, ls @ [x]))
         else Inr (es', ms', n, ls)) = Inr r"
      using c by (cases "t = JStr ''link''") auto
    then obtain r where s3: "(if t = JStr ''link''
         then py_bind (py_getitem e ''url'')
                (\<lambda>x. Inr (es', ms', n + 1, ls @ [x]))
         else Inr (es', ms', n, ls)) = Inr r" by blast
    from True t s1 s2 s3 have "scan_sub_element e v = Inr r"
      by (simp add: scan_sub_element_def v)
    then show ?thesis by (rule exI)
  qed
qed

lemma nested_scan_ok:
  assumes inner: "\<And>x s. p x \<Longrightarrow> \<exists>s'. body x s = Inr s'"
    and ok: "nested_ok p v"
  shows "\<exists>s'. py_bind (py_in ''elements'' v) (\<lambda>has.
           if has then py_bind (py_getitem v ''elements'') (\<lambda>es. py_for es body s)
           else Inr s) = Inr s'"
proof -
  from ok obtain kvs where v: "v = JObj kvs" by (auto simp: nested_ok_def is_dict_iff)
  show ?thesis
  proof (cases "py_in ''elements'' v = Inr True")
    case False
    with object_in [of "''elements''" kvs] have "py_in ''elements'' v = Inr False" by (simp add: v)
    then show ?thesis by simp
  next
    case True
    with object_in_getitem [of "''elements''" kvs] obtain c where c: "py_getitem v ''elements'' = Inr c"
      by (auto simp: v)
    with ok obtain xs where xs: "c = JArr xs" and all: "list_all p xs"
      by (auto simp: nested_ok_def split: json.splits)
    from all inner have "\<And>x s. x \<in> set xs \<Longrightarrow> \<exists>s'. body x s = Inr s'"
      by (simp add: list_all_iff)
    from for_each_succeeds [of xs body s, OF this] obtain s' where "for_each body xs s = Inr s'"
      by blast
    with True c xs show ?thesis by (simp add: py_for_def)
  qed
qed

lemma scan_element_ok: "nested_ok sub_element_ok e \<Longrightarrow> \<exists>v'. scan_element e v = Inr v'"
  unfolding scan_element_def by (rule nested_scan_ok [OF scan_sub_element_ok])

lemma scan_block_ok:
  "nested_ok (nested_ok sub_element_ok) b \<Longrightarrow> \<exists>v'. scan_block b v = Inr v'"
  unfolding scan_block_def by (rule nested_scan_ok [OF scan_element_ok])

lemma blocks_ok_walk:
  assumes "blocks_ok blocks"
  shows "\<exists>v'. py_for blocks scan_block v = Inr v'"
proof -
  from assms obtain bs where b: "blocks = JArr bs"
    and all: "list_all (nested_ok (nested_ok sub_element_ok)) bs"
    by (auto simp: blocks_ok_def split: json.splits)
  have "\<exists>s'. scan_block x s = Inr s'" if "x \<in> set bs" for x s
  proof -
    from that all have "nested_ok (nested_ok sub_element_ok) x" by (simp add: list_all_iff)
    then show ?thesis by (rule scan_block_ok)
  qed
  from for_each_succeeds [of bs scan_block v, OF this] obtain v'
    where "for_each scan_block bs v = Inr v'" by blast
  with b have "py_for blocks scan_block v = Inr v'" by (simp add: py_for_def)
  then show ?thesis by (rule exI)
qed

text \<open>A well-formed message is one on which the loop body does not raise.\<close>

lemma well_formed_extractable:
  assumes "well_formed m"
  shows "extractable m"
proof (cases "has_subtype m")
  case True
  then show ?thesis by (simp add: extractable_def)
next
  case False
  from assms obtain kvs where m: "m = JObj kvs" by (auto simp: well_formed_def is_dict_iff)
  from False object_in [of "''subtype''" kvs] have ls: "lacks_subtype m"
    by (simp add: m has_subtype_def lacks_subtype_def)
  have bl: "succeeds (py_bind (py_getitem m ''blocks'') (\<lambda>b. py_for b scan_block ([], [], 0, [])))"
    if "py_in ''blocks'' m = Inr True"
  proof -
    from that object_in_getitem [of "''blocks''" kvs] obtain blocks
      where g: "py_getitem m ''blocks'' = Inr blocks" by (auto simp: m)
    with assms False have "blocks_ok blocks" by (simp add: well_formed_def)
    from blocks_ok_walk [OF this, of "([], [], 0, [])"] g show ?thesis
      by (auto simp: succeeds_iff)
  qed
  from assms False ls bl show ?thesis
    by (simp add: well_formed_def extractable_def)
qed

lemma example_msgs_well_formed: "list_all well_formed example_msgs"
  by code_simp

section \<open>Properties of \<^verbatim>\<open>from_msg_get_replies\<close>\<close>


lemma reply_loop_error:
  "fst (reply_loop msg rs acc) = None \<longleftrightarrow> list_all (\<lambda>r. succeeds (annotate_reply msg r)) rs"
  by (induction rs arbitrary: acc) (auto split: sum.splits simp: succeeds_def)









section \<open>Properties of \<^verbatim>\<open>get_msgs_df_info\<close>\<close>

lemma flatten_Inr:
  "for_each flatten_entry col acc = Inr us \<Longrightarrow>
     us = acc @ concat (map items (filter (\<lambda>r. r \<noteq> JNull) col))"
proof (induction col arbitrary: acc)
  case Nil
  then show ?case by simp
next
  case (Cons r col)
  from Cons.prems obtain a1 where a: "flatten_entry r acc = Inr a1"
    and b: "for_each flatten_entry col a1 = Inr us"
    by (auto simp: py_bind_Inr_iff)
  from a have "a1 = acc @ (if r \<noteq> JNull then items r else [])"
    by (auto simp: flatten_entry_def py_bind_Inr_iff items_def split: if_splits)
  with Cons.IH [OF b] show ?case by simp
qed

lemma dict_get_set:
  "dict_get (dict_set k v d) k' = (if py_key k = py_key k' then Some v else dict_get d k')"
  by (induction d) auto

lemma dict_get_key: "py_key k = py_key k' \<Longrightarrow> dict_get d k = dict_get d k'"
  by (induction d) auto

lemma count_Inr:
  "for_each count_elem xs d = Inr d' \<Longrightarrow>
     (case dict_get d' u of None \<Rightarrow> 0 | Some c \<Rightarrow> c) =
       (case dict_get d u of None \<Rightarrow> 0 | Some c \<Rightarrow> c) + length (filter (\<lambda>x. py_key x = py_key u) xs)"
proof (induction xs arbitrary: d)
  case Nil
  then show ?case by simp
next
  case (Cons x xs)
  from Cons.prems obtain d1 where a: "count_elem x d = Inr d1"
    and b: "for_each count_elem xs d1 = Inr d'"
    by (auto simp: py_bind_Inr_iff)
  from a have "d1 = dict_set x ((case dict_get d x of None \<Rightarrow> 0 | Some c \<Rightarrow> c) + 1) d"
    by (auto simp: count_elem_def py_dict_setitem_def split: if_splits)
  then have "(case dict_get d1 u of None \<Rightarrow> 0 | Some c \<Rightarrow> c) =
       (case dict_get d u of None \<Rightarrow> 0 | Some c \<Rightarrow> c) + (if py_key x = py_key u then 1 else 0)"
    by (auto simp: dict_get_set dict_get_key [of x u])
  with Cons.IH [OF b] show ?case by simp
qed

lemma count_positive:
  "for_each count_elem xs d = Inr d' \<Longrightarrow> \<forall>k c. dict_get d k = Some c \<longrightarrow> 0 < c \<Longrightarrow>
     dict_get d' u = Some c \<Longrightarrow> 0 < c"
proof (induction xs arbitrary: d)
  case Nil
  then show ?case by auto
next
  case (Cons x xs)
  from Cons.prems(1) obtain d1 where a: "count_elem x d = Inr d1"
    and b: "for_each count_elem xs d1 = Inr d'"
    by (auto simp: py_bind_Inr_iff)
  from a have "d1 = dict_set x ((case dict_get d x of None \<Rightarrow> 0 | Some c \<Rightarrow> c) + 1) d"
    by (auto simp: count_elem_def py_dict_setitem_def split: if_splits)
  with Cons.prems(2) have "\<forall>k c. dict_get d1 k = Some c \<longrightarrow> 0 < c"
    by (auto simp: dict_get_set)
  from Cons.IH [OF b this Cons.prems(3)] show ?case .
qed

lemma Counter_lookup:
  assumes "Counter xs = Inr d"
  shows "dict_get d u =
           (if length (filter (\<lambda>x. py_key x = py_key u) xs) = 0 then None
            else Some (length (filter (\<lambda>x. py_key x = py_key u) xs)))"
proof -
  from assms have r: "for_each count_elem xs [] = Inr d" by (simp add: Counter_def)
  from count_Inr [OF r, of u]
  have n: "(case dict_get d u of None \<Rightarrow> 0 | Some c \<Rightarrow> c) = length (filter (\<lambda>x. py_key x = py_key u) xs)"
    by simp
  show ?thesis
  proof (cases "dict_get d u")
    case None
    with n show ?thesis by simp
  next
    case (Some c)
    from count_positive [OF r _ Some] have "0 < c" by simp
    with n Some show ?thesis by simp
  qed
qed

text \<open>
  When the aggregator returns, its reply count dictionary has, for each identifier,
  the number of times the identifier occurs as an element across the entries of the
  \<^verbatim>\<open>replies\<close> column that are not \<^verbatim>\<open>None\<close>, and no key for an identifier that
  does not occur.
\<close>

theorem replies_count_dict_counts:
  assumes "get_msgs_df_info value_counts groupby_sum df = Inr (msgs_c, replies_c, mentions_c, links_c)"
  shows "dict_get replies_c u =
           (if occurrences u (replies df) = 0 then None else Some (occurrences u (replies df)))"
proof -
  from assms obtain us where f: "flatten_column (replies df) = Inr us" and c: "Counter us = Inr replies_c"
    by (auto simp: get_msgs_df_info_def count_column_def py_bind_Inr_iff)
  from f have "us = concat (map items (filter (\<lambda>r. r \<noteq> JNull) (replies df)))"
    by (auto simp: flatten_column_def dest: flatten_Inr)
  with Counter_lookup [OF c, of u] show ?thesis by (simp add: occurrences_def)
qed

theorem replies_count_dict_counts_witness:
  "get_msgs_df_info (\<lambda>us. Inr (length us)) (\<lambda>us ls. Inr (length ls)) example_frame =
     Inr (3, [(JStr ''U2'', 2), (JStr ''U3'', 1)], [], 3) \<and>
   occurrences (JStr ''U2'') (replies example_frame) = 2 \<and>
   dict_get [(JStr ''U2'', 2), (JStr ''U3'', 1::nat)] (JStr ''U2'') = Some 2 \<and>
   occurrences (JStr ''U1'') (replies example_frame) = 0 \<and>
   dict_get [(JStr ''U2'', 2), (JStr ''U3'', 1::nat)] (JStr ''U1'') = None"
proof -
  have h: "get_msgs_df_info (\<lambda>us. Inr (length us)) (\<lambda>us ls. Inr (length ls)) example_frame =
     Inr (3, [(JStr ''U2'', 2), (JStr ''U3'', 1)], [], 3)"
    by code_simp
  have o: "occurrences (JStr ''U2'') (replies example_frame) = 2"
    "occurrences (JStr ''U1'') (replies example_frame) = 0"
    by code_simp+
  from replies_count_dict_counts [OF h, of "JStr ''U2''"] replies_count_dict_counts [OF h, of "JStr ''U1''"] h o
  show ?thesis by simp
qed












section \<open>Properties of \<^verbatim>\<open>map_userid_2_realname\<close>\<close>

lemma dict_get_None_iff: "dict_get d k = None \<longleftrightarrow> py_key k \<notin> (\<lambda>kv. py_key (fst kv)) ` set d"
proof (induction d)
  case Nil
  show ?case by simp
next
  case (Cons kv d)
  obtain k' v where kv: "kv = (k', v)" by (cases kv)
  show ?case
  proof (cases "py_key k' = py_key k")
    case True
    then show ?thesis by (simp add: kv)
  next
    case False
    then have "py_key k \<noteq> py_key k'" by simp
    with False Cons.IH show ?thesis by (simp add: kv)
  qed
qed

lemma dict_set_keys:
  "(\<lambda>kv. py_key (fst kv)) ` set (dict_set k v d) = insert (py_key k) ((\<lambda>kv. py_key (fst kv)) ` set d)"
proof (induction d)
  case Nil
  show ?case by simp
next
  case (Cons kv d)
  obtain k' v' where kv: "kv = (k', v')" by (cases kv)
  show ?case
  proof (cases "py_key k' = py_key k")
    case True
    then show ?thesis by (simp add: kv insert_absorb2)
  next
    case False
    with Cons.IH show ?thesis by (simp add: kv insert_commute)
  qed
qed

lemma hashable_key: "hashable i \<Longrightarrow> py_key j = py_key i \<Longrightarrow> hashable j"
  by (cases i; cases j) simp_all

lemma set_user_keys:
  "for_each (set_user rn) ids (ud0, c0) = Inr (ud, c) \<Longrightarrow>
     (\<lambda>kv. py_key (fst kv)) ` set ud = (\<lambda>kv. py_key (fst kv)) ` set ud0 \<union> py_key ` set ids"
proof (induction ids arbitrary: ud0 c0)
  case Nil
  then show ?case by simp
next
  case (Cons i ids)
  from Cons.prems obtain ud1 c1 where a: "set_user rn i (ud0, c0) = Inr (ud1, c1)"
    and b: "for_each (set_user rn) ids (ud1, c1) = Inr (ud, c)"
    by (auto simp: py_bind_Inr_iff)
  from a have "ud1 = dict_set i (rn ! c0) ud0"
    by (auto simp: set_user_def py_dict_setitem_def py_bind_Inr_iff split: if_splits)
  with Cons.IH [OF b] show ?case by (auto simp: dict_set_keys)
qed

lemma build_user_dict_keys:
  assumes "build_user_dict up = Inr ud"
  shows "dict_get ud i = None \<longleftrightarrow> py_key i \<notin> py_key ` set (id' up)"
proof -
  from assms obtain rn c where "for_each (set_user rn) (id' up) ([], 0) = Inr (ud, c)"
    by (auto simp: build_user_dict_def py_bind_Inr_iff split: prod.splits)
  from set_user_keys [OF this] show ?thesis by (simp add: dict_get_None_iff)
qed

lemma dict_get_remove:
  "py_key j \<noteq> py_key i \<Longrightarrow> dict_get (dict_remove i d) j = dict_get d j"
  by (induction d) (auto simp: dict_remove_def)

lemma map_one_other:
  "py_key j \<noteq> py_key i \<Longrightarrow> map_one ud (dict_remove i cd) j = map_one ud cd j"
  by (rule ext) (simp add: map_one_def dict_get_remove cong: if_cong)

lemma map_one_absent:
  assumes "hashable i" and "dict_get ud i = None" and "py_key j = py_key i"
  shows "map_one ud cd j ac = Inr ac"
proof -
  from assms(1,3) have "hashable j" by (rule hashable_key)
  moreover from assms(2,3) have "dict_get ud j = None" by (simp add: dict_get_key [of j i])
  ultimately show ?thesis by (simp add: map_one_def py_dict_in_def)
qed

lemma map_loop_remove:
  assumes "hashable i" and "dict_get ud i = None"
  shows "for_each (map_one ud cd) ks ac =
           for_each (map_one ud (dict_remove i cd)) (filter (\<lambda>j. py_key j \<noteq> py_key i) ks) ac"
proof (induction ks arbitrary: ac)
  case Nil
  show ?case by simp
next
  case (Cons j ks)
  show ?case
  proof (cases "py_key j = py_key i")
    case True
    with map_one_absent [OF assms this, of cd ac] Cons.IH show ?thesis by simp
  next
    case False
    with map_one_other [of j i ud cd] Cons.IH show ?thesis
      by (cases "map_one ud cd j ac") simp_all
  qed
qed

lemma keys_remove: "map fst (dict_remove i d) = filter (\<lambda>j. py_key j \<noteq> py_key i) (map fst d)"
  by (simp add: dict_remove_def filter_map comp_def)

lemma dict_get_Some_iff:
  assumes "distinct (map (\<lambda>kv. py_key (fst kv)) d)"
  shows "dict_get d k = Some v \<longleftrightarrow> (\<exists>k'. (k', v) \<in> set d \<and> py_key k' = py_key k)"
  using assms
proof (induction d)
  case Nil
  show ?case by simp
next
  case (Cons kv d)
  obtain k1 v1 where kv: "kv = (k1, v1)" by (cases kv)
  from Cons.prems have fresh: "py_key k1 \<notin> (\<lambda>kv. py_key (fst kv)) ` set d"
    and d: "distinct (map (\<lambda>kv. py_key (fst kv)) d)"
    by (simp_all add: kv)
  show ?case
  proof (cases "py_key k1 = py_key k")
    case True
    with fresh have "\<And>k' v'. (k', v') \<in> set d \<Longrightarrow> py_key k' \<noteq> py_key k" by force
    with True show ?thesis by (auto simp: kv)
  next
    case False
    with Cons.IH [OF d] show ?thesis by (auto simp: kv)
  qed
qed

lemma dict_get_member:
  "distinct (map (\<lambda>kv. py_key (fst kv)) d) \<Longrightarrow> kv \<in> set d \<Longrightarrow> dict_get d (fst kv) = Some (snd kv)"
  by (cases kv) (auto simp: dict_get_Some_iff)

lemma dict_get_append:
  "dict_get (xs @ ys) k = (case dict_get xs k of Some v \<Rightarrow> Some v | None \<Rightarrow> dict_get ys k)"
  by (induction xs) auto

lemma dict_set_distinct:
  "distinct (map (\<lambda>kv. py_key (fst kv)) d) \<Longrightarrow> distinct (map (\<lambda>kv. py_key (fst kv)) (dict_set k v d))"
proof (induction d)
  case Nil
  show ?case by simp
next
  case (Cons kv d)
  obtain k1 v1 where kv: "kv = (k1, v1)" by (cases kv)
  from Cons.prems have fresh: "py_key k1 \<notin> (\<lambda>kv. py_key (fst kv)) ` set d"
    and d: "distinct (map (\<lambda>kv. py_key (fst kv)) d)"
    by (simp_all add: kv)
  show ?case
  proof (cases "py_key k1 = py_key k")
    case True
    with fresh d show ?thesis by (simp add: kv)
  next
    case False
    with fresh Cons.IH [OF d] show ?thesis by (simp add: kv dict_set_keys)
  qed
qed

lemma dict_set_fresh:
  "py_key k \<notin> (\<lambda>kv. py_key (fst kv)) ` set d \<Longrightarrow> dict_set k v d = d @ [(k, v)]"
  by (induction d) auto

lemma fold_dict_set_get:
  "dict_get (fold (\<lambda>r. dict_set (fst r) (snd r)) rs d) n =
     (case dict_get (rev rs) n of Some c \<Rightarrow> Some c | None \<Rightarrow> dict_get d n)"
proof (induction rs arbitrary: d)
  case Nil
  show ?case by simp
next
  case (Cons r rs)
  obtain k v where r: "r = (k, v)" by (cases r)
  show ?case
    by (simp add: Cons.IH dict_get_append dict_get_set r split: option.splits)
qed

lemma fold_dict_set_distinct:
  "distinct (map (\<lambda>kv. py_key (fst kv)) d) \<Longrightarrow>
     distinct (map (\<lambda>kv. py_key (fst kv)) (fold (\<lambda>r. dict_set (fst r) (snd r)) rs d))"
  by (induction rs arbitrary: d) (simp_all add: dict_set_distinct)

lemma fold_dict_set_fresh:
  "distinct (map (\<lambda>kv. py_key (fst kv)) (d @ rs)) \<Longrightarrow>
     fold (\<lambda>r. dict_set (fst r) (snd r)) rs d = d @ rs"
proof (induction rs arbitrary: d)
  case Nil
  show ?case by simp
next
  case (Cons r rs)
  from Cons.prems have "py_key (fst r) \<notin> (\<lambda>kv. py_key (fst kv)) ` set d" by auto
  then have s: "dict_set (fst r) (snd r) d = d @ [r]" by (simp add: dict_set_fresh)
  from Cons.prems have "distinct (map (\<lambda>kv. py_key (fst kv)) ((d @ [r]) @ rs))" by simp
  from Cons.IH [OF this] s show ?case by simp
qed

lemma map_loop_fold:
  assumes "for_each (map_one ud cd) (map fst kvs) ac0 = Inr ac"
    and "\<forall>kv\<in>set kvs. dict_get cd (fst kv) = Some (snd kv)"
  shows "ac = fold (\<lambda>r. dict_set (fst r) (snd r)) (resolved ud kvs) ac0"
  using assms
proof (induction kvs arbitrary: ac0)
  case Nil
  then show ?case by (simp add: resolved_def)
next
  case (Cons kv kvs)
  from Cons.prems(1) obtain ac1 where a: "map_one ud cd (fst kv) ac0 = Inr ac1"
    and b: "for_each (map_one ud cd) (map fst kvs) ac1 = Inr ac"
    by (auto simp: py_bind_Inr_iff)
  from Cons.prems(2) have c: "dict_get cd (fst kv) = Some (snd kv)"
    and rest: "\<forall>kv\<in>set kvs. dict_get cd (fst kv) = Some (snd kv)" by simp_all
  from a c have "ac1 = fold (\<lambda>r. dict_set (fst r) (snd r))
                        (case dict_get ud (fst kv) of None \<Rightarrow> [] | Some name \<Rightarrow> [(name, snd kv)]) ac0"
    by (auto simp: map_one_def py_bind_Inr_iff py_dict_in_def py_dict_setitem_def
             split: if_splits option.splits)
  with Cons.IH [OF b rest] show ?case by (simp add: resolved_def)
qed

lemma sort_values_desc_mset: "mset (sort_values_desc tie rs) = mset rs"
  by (simp add: sort_values_desc_def)

lemma sort_values_desc_sorted:
  "sorted_wrt (\<lambda>a b. snd b \<le> snd a) (sort_values_desc tie rs)"
proof -
  have "sorted (map snd (sort_key snd (rev (sort_key tie rs))))" by (rule sorted_sort_key)
  then have "sorted_wrt (\<lambda>a b. snd a \<le> snd b) (sort_key snd (rev (sort_key tie rs)))"
    by (simp add: sorted_map)
  then show ?thesis by (simp add: sort_values_desc_def sorted_wrt_rev)
qed

text \<open>
  The parameter \<open>tie\<close> leaves the order among equal counts open, and nothing else:
  every arrangement of the rows that is sorted by count, largest first, is what
  \<open>sort_values_desc\<close> gives for some ranking.
\<close>

lemma filter_eq_singleton: "distinct ys \<Longrightarrow> k \<in> set ys \<Longrightarrow> filter (\<lambda>x. k = x) ys = [k]"
  by (induction ys) (auto simp: filter_empty_conv)

lemma sort_key_unique:
  assumes "mset ys = mset xs" and "sorted (map f ys)" and "inj_on f (set xs)" and "distinct xs"
  shows "sort_key f xs = ys"
proof (rule properties_for_sort_key)
  show "mset ys = mset xs" by fact
  show "sorted (map f ys)" by fact
  fix k assume k: "k \<in> set ys"
  from assms(1) have s: "set ys = set xs" by (rule mset_eq_setD)
  from assms(1,4) have d: "distinct ys" by (metis mset_eq_imp_distinct_iff)
  have "filter (\<lambda>x. f k = f x) ys = filter (\<lambda>x. k = x) ys"
    using assms(3) k s by (intro filter_cong) (auto dest: inj_onD)
  moreover have "filter (\<lambda>x. f k = f x) xs = filter (\<lambda>x. k = x) xs"
    using assms(3) k s by (intro filter_cong) (auto dest: inj_onD)
  moreover have "filter (\<lambda>x. k = x) ys = [k]" using d k by (rule filter_eq_singleton)
  moreover have "filter (\<lambda>x. k = x) xs = [k]" using assms(4) k s
    by (intro filter_eq_singleton) simp_all
  ultimately show "filter (\<lambda>x. f k = f x) ys = filter (\<lambda>x. f k = f x) xs" by simp
qed

lemma position_nth: "distinct ys \<Longrightarrow> i < length ys \<Longrightarrow> position ys (ys ! i) = i"
  by (induction ys arbitrary: i) (auto simp: position_def nth_Cons split: nat.splits)

lemma map_position: "distinct ys \<Longrightarrow> map (position ys) ys = [0..<length ys]"
  by (rule nth_equalityI) (simp_all add: position_nth)

lemma position_inj: "distinct ys \<Longrightarrow> inj_on (position ys) (set ys)"
  using distinct_map map_position by fastforce

lemma sort_values_desc_any_order:
  assumes "mset ys = mset rs" and "distinct rs" and "sorted_wrt (\<lambda>a b. snd b \<le> snd a) ys"
  shows "sort_values_desc (position ys) rs = ys"
proof -
  from assms(1) have s: "set ys = set rs" by (rule mset_eq_setD)
  from assms(1,2) have d: "distinct ys" by (metis mset_eq_imp_distinct_iff)
  from d have "sorted (map (position ys) ys)" by (simp add: map_position)
  moreover from position_inj [OF d] s have "inj_on (position ys) (set rs)" by simp
  ultimately have a: "sort_key (position ys) rs = ys"
    using assms(1,2) by (intro sort_key_unique)
  from assms(3) have "sorted (map snd (rev ys))" by (simp add: sorted_map sorted_wrt_rev)
  then have "sort_key snd (rev ys) = rev ys" by (rule sort_key_id_if_sorted)
  with a show ?thesis by (simp add: sort_values_desc_def)
qed

lemma sort_values_desc_tied_example:
  "sort_values_desc
     (position [(JStr ''Dee'', 5::int), (JStr ''Cy'', 5), (JStr ''Bob'', 2), (JStr ''Ada'', 2)])
     [(JStr ''Ada'', 2), (JStr ''Bob'', 2), (JStr ''Cy'', 5), (JStr ''Dee'', 5)] =
   [(JStr ''Dee'', 5), (JStr ''Cy'', 5), (JStr ''Bob'', 2), (JStr ''Ada'', 2)]"
  "sort_values_desc (\<lambda>r. 0)
     [(JStr ''Ada'', 2::int), (JStr ''Bob'', 2), (JStr ''Cy'', 5), (JStr ''Dee'', 5)] =
   [(JStr ''Cy'', 5), (JStr ''Dee'', 5), (JStr ''Ada'', 2), (JStr ''Bob'', 2)]"
  by code_simp+

lemma resolver_run:
  "map_userid_2_realname tie plot_bar up cd plot = Inr out \<longleftrightarrow>
     (\<exists>ud ac. build_user_dict up = Inr ud \<and>
        for_each (map_one ud cd) (map fst cd) [] = Inr ac \<and>
        out = sort_values_desc tie ac \<and> (plot \<longrightarrow> succeeds (plot_bar out)))"
  by (auto simp: map_userid_2_realname_def py_bind_Inr_iff Let_def succeeds_iff)

lemma real_name_loop:
  "for_each append_real_name ps acc = Inr rn \<longleftrightarrow>
     list_all (\<lambda>p. succeeds (py_getitem p ''real_name'')) ps \<and>
     rn = acc @ map (\<lambda>p. case py_getitem p ''real_name'' of Inr v \<Rightarrow> v | Inl e \<Rightarrow> JNull) ps"
proof (induction ps arbitrary: acc)
  case Nil
  show ?case by auto
next
  case (Cons p ps)
  show ?case
  proof (cases "py_getitem p ''real_name''")
    case (Inl e)
    then show ?thesis by (simp add: append_real_name_def succeeds_def)
  next
    case (Inr v)
    then have "append_real_name p acc = Inr (acc @ [v])" by (simp add: append_real_name_def)
    with Inr show ?thesis by (simp add: succeeds_def Cons.IH)
  qed
qed

lemma set_user_loop:
  "for_each (set_user rn) ids (ud0, c0) = Inr (ud, c) \<longleftrightarrow>
     (ids = [] \<or> c0 + length ids \<le> length rn) \<and> list_all hashable ids \<and>
     c = c0 + length ids \<and>
     ud = fold (\<lambda>r. dict_set (fst r) (snd r)) (zip ids (drop c0 rn)) ud0"
proof (induction ids arbitrary: ud0 c0)
  case Nil
  show ?case by auto
next
  case (Cons i ids)
  show ?case
  proof (cases "c0 < length rn \<and> hashable i")
    case False
    then show ?thesis by (auto simp: set_user_def py_dict_setitem_def)
  next
    case True
    then have d: "drop c0 rn = rn ! c0 # drop (Suc c0) rn" by (simp add: Cons_nth_drop_Suc)
    from True have "set_user rn i (ud0, c0) = Inr (dict_set i (rn ! c0) ud0, Suc c0)"
      by (simp add: set_user_def py_dict_setitem_def)
    with True show ?thesis by (auto simp: Cons.IH d)
  qed
qed

lemma build_user_dict_iff:
  "build_user_dict up = Inr ud \<longleftrightarrow>
     list_all (\<lambda>p. succeeds (py_getitem p ''real_name'')) (profile up) \<and>
     length (id' up) \<le> length (profile up) \<and> list_all hashable (id' up) \<and>
     ud = fold (\<lambda>r. dict_set (fst r) (snd r)) (zip (id' up) (real_names up)) []"
  by (auto simp: build_user_dict_def py_bind_Inr_iff real_name_loop set_user_loop real_names_def)

lemma build_user_dict_directory:
  assumes "build_user_dict up = Inr ud"
  shows "dict_get ud i = dict_get (directory up) i"
proof -
  from assms have "ud = fold (\<lambda>r. dict_set (fst r) (snd r)) (zip (id' up) (real_names up)) []"
    by (simp add: build_user_dict_iff)
  then show ?thesis by (simp add: fold_dict_set_get directory_def split: option.splits)
qed

lemma resolved_cong:
  "(\<And>i. dict_get ud i = dict_get ud' i) \<Longrightarrow> resolved ud cd = resolved ud' cd"
  by (simp add: resolved_def)

lemma map_loop_returns:
  assumes "\<forall>kv\<in>set kvs. dict_get cd (fst kv) \<noteq> None"
  shows "succeeds (for_each (map_one ud cd) (map fst kvs) ac0) \<longleftrightarrow>
           list_all (\<lambda>kv. hashable (fst kv) \<and>
                          (case dict_get ud (fst kv) of None \<Rightarrow> True | Some n \<Rightarrow> hashable n)) kvs"
  using assms
proof (induction kvs arbitrary: ac0)
  case Nil
  show ?case by (simp add: succeeds_def)
next
  case (Cons kv kvs)
  from Cons.prems obtain c where c: "dict_get cd (fst kv) = Some c" by auto
  from Cons.prems have rest: "\<forall>kv\<in>set kvs. dict_get cd (fst kv) \<noteq> None" by simp
  show ?case
  proof (cases "hashable (fst kv) \<and>
                (case dict_get ud (fst kv) of None \<Rightarrow> True | Some n \<Rightarrow> hashable n)")
    case False
    with c have "\<exists>e. map_one ud cd (fst kv) ac0 = Inl e"
      by (auto simp: map_one_def py_dict_in_def py_dict_setitem_def split: option.splits)
    with False show ?thesis by (auto simp: succeeds_def)
  next
    case True
    with c have "\<exists>ac1. map_one ud cd (fst kv) ac0 = Inr ac1"
      by (auto simp: map_one_def py_dict_in_def py_dict_setitem_def split: option.splits)
    then obtain ac1 where "map_one ud cd (fst kv) ac0 = Inr ac1" ..
    with True Cons.IH [OF rest, of ac1] show ?thesis by simp
  qed
qed

lemma dict_get_permutation:
  assumes "distinct (map (\<lambda>kv. py_key (fst kv)) xs)" and "mset ys = mset xs"
  shows "distinct (map (\<lambda>kv. py_key (fst kv)) ys) \<and> dict_get ys n = dict_get xs n"
proof -
  from assms(2) have m: "mset (map (\<lambda>kv. py_key (fst kv)) ys) = mset (map (\<lambda>kv. py_key (fst kv)) xs)"
    by simp
  with assms(1) have d: "distinct (map (\<lambda>kv. py_key (fst kv)) ys)"
    by (metis mset_eq_imp_distinct_iff)
  from assms(2) have s: "set ys = set xs" by (rule mset_eq_setD)
  have eq: "dict_get ys n = Some v \<longleftrightarrow> dict_get xs n = Some v" for v
  proof -
    have "dict_get ys n = Some v \<longleftrightarrow> (\<exists>k'. (k', v) \<in> set ys \<and> py_key k' = py_key n)"
      by (rule dict_get_Some_iff [OF d])
    also have "\<dots> \<longleftrightarrow> (\<exists>k'. (k', v) \<in> set xs \<and> py_key k' = py_key n)"
      by (simp only: s)
    also have "\<dots> \<longleftrightarrow> dict_get xs n = Some v"
      by (rule dict_get_Some_iff [OF assms(1), symmetric])
    finally show ?thesis .
  qed
  have "dict_get ys n = dict_get xs n"
  proof (cases "dict_get xs n")
    case None
    have "\<forall>v. dict_get ys n \<noteq> Some v"
      using eq None by simp
    then have "dict_get ys n = None" by (simp only: not_Some_eq)
    with None show ?thesis by simp
  next
    case (Some v)
    with eq [of v] show ?thesis by simp
  qed
  with d show ?thesis by simp
qed

lemma dict_set_member:
  assumes "r \<in> set (dict_set k v d)"
  shows "py_key (fst r) = py_key k \<or> (\<exists>r0\<in>set d. py_key (fst r0) = py_key (fst r))"
proof -
  from assms have "py_key (fst r) \<in> (\<lambda>kv. py_key (fst kv)) ` set (dict_set k v d)"
    by (rule imageI)
  then have "py_key (fst r) \<in> insert (py_key k) ((\<lambda>kv. py_key (fst kv)) ` set d)"
    by (simp only: dict_set_keys)
  then show ?thesis by (elim insertE imageE) (simp, metis)
qed

lemma map_one_member:
  assumes "map_one ud cd k ac0 = Inr ac1" and "r \<in> set ac1"
  shows "(\<exists>r0\<in>set ac0. py_key (fst r0) = py_key (fst r)) \<or>
         (\<exists>n. dict_get ud k = Some n \<and> py_key n = py_key (fst r))"
proof -
  from assms(1) have "ac1 = ac0 \<or> (\<exists>n c. dict_get ud k = Some n \<and> ac1 = dict_set n c ac0)"
    by (auto simp: map_one_def py_bind_Inr_iff py_dict_in_def py_dict_setitem_def
             split: if_splits option.splits)
  then show ?thesis
  proof (elim disjE exE conjE)
    assume "ac1 = ac0"
    with assms(2) show ?thesis by (intro disjI1 bexI [of _ r]) simp_all
  next
    fix n c
    assume n: "dict_get ud k = Some n" and e: "ac1 = dict_set n c ac0"
    from assms(2) e have "r \<in> set (dict_set n c ac0)" by simp
    from dict_set_member [OF this] n show ?thesis by metis
  qed
qed

lemma map_loop_member:
  "for_each (map_one ud cd) ks ac0 = Inr ac \<Longrightarrow> r \<in> set ac \<Longrightarrow>
     (\<exists>r0\<in>set ac0. py_key (fst r0) = py_key (fst r)) \<or>
     (\<exists>j\<in>set ks. \<exists>n. dict_get ud j = Some n \<and> py_key n = py_key (fst r))"
proof (induction ks arbitrary: ac0)
  case Nil
  then show ?case by (intro disjI1 bexI [of _ r]) simp_all
next
  case (Cons k ks)
  from Cons.prems(1) obtain ac1 where a: "map_one ud cd k ac0 = Inr ac1"
    and b: "for_each (map_one ud cd) ks ac1 = Inr ac"
    by (auto simp: py_bind_Inr_iff)
  from Cons.IH [OF b Cons.prems(2)] show ?case
  proof
    assume "\<exists>r0\<in>set ac1. py_key (fst r0) = py_key (fst r)"
    then obtain r1 where r1: "r1 \<in> set ac1" and k1: "py_key (fst r1) = py_key (fst r)" by blast
    from map_one_member [OF a r1] show ?thesis
    proof
      assume "\<exists>r0\<in>set ac0. py_key (fst r0) = py_key (fst r1)"
      with k1 show ?thesis by simp
    next
      assume "\<exists>n. dict_get ud k = Some n \<and> py_key n = py_key (fst r1)"
      with k1 have "\<exists>j\<in>set (k # ks). \<exists>n. dict_get ud j = Some n \<and> py_key n = py_key (fst r)"
        by simp
      then show ?thesis by (rule disjI2)
    qed
  next
    assume "\<exists>j\<in>set ks. \<exists>n. dict_get ud j = Some n \<and> py_key n = py_key (fst r)"
    then have "\<exists>j\<in>set (k # ks). \<exists>n. dict_get ud j = Some n \<and> py_key n = py_key (fst r)"
      by simp
    then show ?thesis by (rule disjI2)
  qed
qed

text \<open>
  Claim C8. An identifier of the count dictionary that the directory does not have is
  dropped without an exception: the resolver gives the same outcome as on the count
  dictionary without that identifier, and every row of its output carries the name
  that the directory has for an identifier of the count dictionary.
\<close>

theorem absent_id_dropped:
  assumes "hashable i" and "py_key i \<notin> py_key ` set (id' up)"
  shows "map_userid_2_realname tie plot_bar up cd plot =
           map_userid_2_realname tie plot_bar up (dict_remove i cd) plot \<and>
         (\<forall>ud out. build_user_dict up = Inr ud \<longrightarrow>
            map_userid_2_realname tie plot_bar up cd plot = Inr out \<longrightarrow>
            (\<forall>r\<in>set out. \<exists>kv\<in>set cd. \<exists>n. dict_get ud (fst kv) = Some n \<and>
                                            py_key n = py_key (fst r)))"
proof
  show "map_userid_2_realname tie plot_bar up cd plot =
          map_userid_2_realname tie plot_bar up (dict_remove i cd) plot"
  proof (cases "build_user_dict up")
    case (Inl e)
    then show ?thesis by (simp add: map_userid_2_realname_def)
  next
    case (Inr ud)
    with assms(2) have "dict_get ud i = None" by (simp add: build_user_dict_keys)
    from map_loop_remove [OF assms(1) this, of cd "map fst cd" "[]"] Inr
    show ?thesis by (simp add: map_userid_2_realname_def keys_remove)
  qed
next
  show "\<forall>ud out. build_user_dict up = Inr ud \<longrightarrow>
            map_userid_2_realname tie plot_bar up cd plot = Inr out \<longrightarrow>
            (\<forall>r\<in>set out. \<exists>kv\<in>set cd. \<exists>n. dict_get ud (fst kv) = Some n \<and>
                                            py_key n = py_key (fst r))"
  proof (intro allI impI ballI)
    fix ud out r
    assume b: "build_user_dict up = Inr ud"
      and run: "map_userid_2_realname tie plot_bar up cd plot = Inr out"
      and r: "r \<in> set out"
    from run b obtain ac where l: "for_each (map_one ud cd) (map fst cd) [] = Inr ac"
      and o: "out = sort_values_desc tie ac"
      by (auto simp: resolver_run)
    from o have "set out = set ac"
      using sort_values_desc_mset [of tie ac] by (metis mset_eq_setD)
    with r have "r \<in> set ac" by simp
    from map_loop_member [OF l this]
    have "\<exists>j\<in>set (map fst cd). \<exists>n. dict_get ud j = Some n \<and> py_key n = py_key (fst r)"
      by simp
    then show "\<exists>kv\<in>set cd. \<exists>n. dict_get ud (fst kv) = Some n \<and> py_key n = py_key (fst r)"
      by auto
  qed
qed

theorem absent_id_dropped_witness:
  "hashable (JStr ''U9'') \<and> py_key (JStr ''U9'') \<notin> py_key ` set (id' example_profile) \<and>
   map_userid_2_realname no_tie draws example_profile example_counts False =
     map_userid_2_realname no_tie draws example_profile
       (dict_remove (JStr ''U9'') example_counts) False \<and>
   build_user_dict example_profile =
     Inr [(JStr ''U1'', JStr ''Ada''), (JStr ''U2'', JStr ''Bob''), (JStr ''U3'', JStr ''Cy'')] \<and>
   map_userid_2_realname no_tie draws example_profile example_counts False =
     Inr [(JStr ''Ada'', 5), (JStr ''Bob'', 2)] \<and>
   (\<exists>kv\<in>set example_counts. \<exists>n.
      dict_get [(JStr ''U1'', JStr ''Ada''), (JStr ''U2'', JStr ''Bob''), (JStr ''U3'', JStr ''Cy'')]
        (fst kv) = Some n \<and> py_key n = py_key (JStr ''Ada''))"
proof -
  have h: "hashable (JStr ''U9'')" "py_key (JStr ''U9'') \<notin> py_key ` set (id' example_profile)"
    by code_simp+
  have b: "build_user_dict example_profile =
     Inr [(JStr ''U1'', JStr ''Ada''), (JStr ''U2'', JStr ''Bob''), (JStr ''U3'', JStr ''Cy'')]"
    by code_simp
  have r: "map_userid_2_realname no_tie draws example_profile example_counts False =
     Inr [(JStr ''Ada'', 5), (JStr ''Bob'', 2)]"
    by code_simp
  from absent_id_dropped [OF h, of no_tie draws example_counts False]
  have one: "map_userid_2_realname no_tie draws example_profile example_counts False =
     map_userid_2_realname no_tie draws example_profile
       (dict_remove (JStr ''U9'') example_counts) False"
    and all: "\<forall>ud out. build_user_dict example_profile = Inr ud \<longrightarrow>
        map_userid_2_realname no_tie draws example_profile example_counts False = Inr out \<longrightarrow>
        (\<forall>r\<in>set out. \<exists>kv\<in>set example_counts. \<exists>n. dict_get ud (fst kv) = Some n \<and>
                                            py_key n = py_key (fst r))"
    by blast+
  from all b r have "\<forall>r\<in>set [(JStr ''Ada'', 5::int), (JStr ''Bob'', 2)].
      \<exists>kv\<in>set example_counts. \<exists>n.
        dict_get [(JStr ''U1'', JStr ''Ada''), (JStr ''U2'', JStr ''Bob''), (JStr ''U3'', JStr ''Cy'')]
          (fst kv) = Some n \<and> py_key n = py_key (fst r)"
    by blast
  then have two: "\<exists>kv\<in>set example_counts. \<exists>n.
      dict_get [(JStr ''U1'', JStr ''Ada''), (JStr ''U2'', JStr ''Bob''), (JStr ''U3'', JStr ''Cy'')]
        (fst kv) = Some n \<and> py_key n = py_key (JStr ''Ada'')"
    by simp
  from h one b r two show ?thesis by (intro conjI)
qed

lemma resolver_returns_iff:
  assumes "distinct (map (\<lambda>kv. py_key (fst kv)) cd)"
  shows "succeeds (map_userid_2_realname tie plot_bar up cd plot) \<longleftrightarrow>
           list_all (\<lambda>p. succeeds (py_getitem p ''real_name'')) (profile up) \<and>
           length (id' up) \<le> length (profile up) \<and> list_all hashable (id' up) \<and>
           list_all (\<lambda>kv. hashable (fst kv) \<and>
                          (case dict_get (directory up) (fst kv) of
                             None \<Rightarrow> True | Some n \<Rightarrow> hashable n)) cd \<and>
           (plot \<longrightarrow> succeeds (plot_bar (sort_values_desc tie
              (fold (\<lambda>r. dict_set (fst r) (snd r)) (resolved (directory up) cd) []))))"
proof (cases "build_user_dict up")
  case (Inl e)
  then have "\<not> (\<exists>ud. build_user_dict up = Inr ud)" by simp
  then have "\<not> (list_all (\<lambda>p. succeeds (py_getitem p ''real_name'')) (profile up) \<and>
           length (id' up) \<le> length (profile up) \<and> list_all hashable (id' up))"
    by (simp add: build_user_dict_iff)
  with Inl show ?thesis by (auto simp: map_userid_2_realname_def succeeds_def)
next
  case (Inr ud)
  then have b: "list_all (\<lambda>p. succeeds (py_getitem p ''real_name'')) (profile up) \<and>
           length (id' up) \<le> length (profile up) \<and> list_all hashable (id' up)"
    by (simp add: build_user_dict_iff)
  have g: "dict_get ud i = dict_get (directory up) i" for i
    using Inr by (rule build_user_dict_directory)
  from assms have m: "\<forall>kv\<in>set cd. dict_get cd (fst kv) = Some (snd kv)"
    by (simp add: dict_get_member)
  then have n: "\<forall>kv\<in>set cd. dict_get cd (fst kv) \<noteq> None" by simp
  have res: "resolved ud cd = resolved (directory up) cd" by (rule resolved_cong) (rule g)
  show ?thesis
  proof (cases "for_each (map_one ud cd) (map fst cd) []")
    case (Inl e)
    then have "\<not> succeeds (for_each (map_one ud cd) (map fst cd) [])" by (simp add: succeeds_def)
    then have "\<not> list_all (\<lambda>kv. hashable (fst kv) \<and>
                          (case dict_get (directory up) (fst kv) of
                             None \<Rightarrow> True | Some n \<Rightarrow> hashable n)) cd"
      by (simp add: map_loop_returns [OF n] g)
    moreover from Inl \<open>build_user_dict up = Inr ud\<close>
    have "\<not> succeeds (map_userid_2_realname tie plot_bar up cd plot)"
      by (simp add: map_userid_2_realname_def succeeds_def)
    ultimately show ?thesis by simp
  next
    case (Inr ac)
    then have "succeeds (for_each (map_one ud cd) (map fst cd) [])" by (simp add: succeeds_def)
    then have l: "list_all (\<lambda>kv. hashable (fst kv) \<and>
                          (case dict_get (directory up) (fst kv) of
                             None \<Rightarrow> True | Some n \<Rightarrow> hashable n)) cd"
      by (simp add: map_loop_returns [OF n] g)
    from map_loop_fold [OF Inr m] res
    have ac: "ac = fold (\<lambda>r. dict_set (fst r) (snd r)) (resolved (directory up) cd) []" by simp
    from Inr \<open>build_user_dict up = Inr ud\<close>
    have "succeeds (map_userid_2_realname tie plot_bar up cd plot) \<longleftrightarrow>
            (plot \<longrightarrow> succeeds (plot_bar (sort_values_desc tie ac)))"
      by (cases "plot_bar (sort_values_desc tie ac)")
         (simp_all add: map_userid_2_realname_def succeeds_def Let_def)
    with b l ac show ?thesis by simp
  qed
qed

text \<open>
  Claim C9, as stated, fails: two identifiers with the same real name give one row,
  and the count of the first is lost. With the profiles Ada, Bob, Ada for the
  identifiers U1, U2, U3 and the counts 5, 2, 1, the re-keyed entries are
  (Ada, 5), (Bob, 2), (Ada, 1), and the resolver returns (Bob, 2), (Ada, 1).
\<close>

theorem shared_name_loses_count:
  "resolved (directory shared_name_profile) shared_name_counts =
     [(JStr ''Ada'', 5), (JStr ''Bob'', 2), (JStr ''Ada'', 1)] \<and>
   map_userid_2_realname no_tie draws shared_name_profile shared_name_counts False =
     Inr [(JStr ''Bob'', 2), (JStr ''Ada'', 1)]"
  by code_simp

text \<open>
  Claim C9, amended. What the resolver returns is sorted by count, largest first,
  whatever order the library gives to rows of equal count; its rows have distinct
  names; the count under a name is the count of the last identifier of the count
  dictionary to which the directory of the input (\<open>directory\<close>: position by position,
  identifier to real name) gives this name; and when no two identifiers of the count
  dictionary that the directory knows share a name, the rows are exactly the re-keyed
  entries.
\<close>

theorem resolver_last_count_per_name:
  assumes run: "map_userid_2_realname tie plot_bar up cd plot = Inr out"
    and dict: "distinct (map (\<lambda>kv. py_key (fst kv)) cd)"
  shows "sorted_wrt (\<lambda>a b. snd b \<le> snd a) out \<and>
         distinct (map (\<lambda>r. py_key (fst r)) out) \<and>
         (\<forall>n. dict_get out n = dict_get (rev (resolved (directory up) cd)) n) \<and>
         (distinct (map (\<lambda>r. py_key (fst r)) (resolved (directory up) cd))
            \<longrightarrow> mset out = mset (resolved (directory up) cd))"
proof -
  from run obtain ud ac where b: "build_user_dict up = Inr ud"
    and l: "for_each (map_one ud cd) (map fst cd) [] = Inr ac"
    and o: "out = sort_values_desc tie ac"
    by (auto simp: resolver_run)
  have "dict_get ud i = dict_get (directory up) i" for i
    using b by (rule build_user_dict_directory)
  then have res: "resolved ud cd = resolved (directory up) cd" by (rule resolved_cong)
  from dict have "\<forall>kv\<in>set cd. dict_get cd (fst kv) = Some (snd kv)"
    by (simp add: dict_get_member)
  from map_loop_fold [OF l this] res
  have ac: "ac = fold (\<lambda>r. dict_set (fst r) (snd r)) (resolved (directory up) cd) []" by simp
  have dac: "distinct (map (\<lambda>r. py_key (fst r)) ac)"
    unfolding ac by (rule fold_dict_set_distinct) simp
  have gac: "dict_get ac n = dict_get (rev (resolved (directory up) cd)) n" for n
    unfolding ac by (simp add: fold_dict_set_get split: option.splits)
  have m: "mset out = mset ac" by (simp add: o sort_values_desc_mset)
  from dict_get_permutation [OF dac m]
  have dout: "distinct (map (\<lambda>r. py_key (fst r)) out)"
    and gout: "dict_get out n = dict_get ac n" for n
    by simp_all
  have s: "sorted_wrt (\<lambda>a b. snd b \<le> snd a) out"
    by (simp add: o sort_values_desc_sorted)
  have e: "distinct (map (\<lambda>r. py_key (fst r)) (resolved (directory up) cd))
             \<longrightarrow> mset out = mset (resolved (directory up) cd)"
  proof
    assume "distinct (map (\<lambda>r. py_key (fst r)) (resolved (directory up) cd))"
    then have "fold (\<lambda>r. dict_set (fst r) (snd r)) (resolved (directory up) cd) [] =
                 [] @ resolved (directory up) cd"
      by (intro fold_dict_set_fresh) simp
    with ac m show "mset out = mset (resolved (directory up) cd)" by simp
  qed
  from s dout gout gac e show ?thesis by auto
qed

theorem resolver_last_count_per_name_witness:
  "map_userid_2_realname no_tie draws example_profile example_counts False =
     Inr [(JStr ''Ada'', 5), (JStr ''Bob'', 2)] \<and>
   distinct (map (\<lambda>kv. py_key (fst kv)) example_counts) \<and>
   resolved (directory example_profile) example_counts = [(JStr ''Bob'', 2), (JStr ''Ada'', 5)] \<and>
   distinct (map (\<lambda>r. py_key (fst r)) (resolved (directory example_profile) example_counts)) \<and>
   sorted_wrt (\<lambda>a b. snd b \<le> snd a) [(JStr ''Ada'', 5::int), (JStr ''Bob'', 2)] \<and>
   dict_get [(JStr ''Ada'', 5::int), (JStr ''Bob'', 2)] (JStr ''Bob'') =
     dict_get (rev (resolved (directory example_profile) example_counts)) (JStr ''Bob'') \<and>
   mset [(JStr ''Ada'', 5::int), (JStr ''Bob'', 2)] =
     mset (resolved (directory example_profile) example_counts)"
proof -
  have r: "map_userid_2_realname no_tie draws example_profile example_counts False =
     Inr [(JStr ''Ada'', 5), (JStr ''Bob'', 2)]"
    by code_simp
  have d: "distinct (map (\<lambda>kv. py_key (fst kv)) example_counts)" by code_simp
  have v: "resolved (directory example_profile) example_counts =
             [(JStr ''Bob'', 2), (JStr ''Ada'', 5)]"
    by code_simp
  have dv: "distinct (map (\<lambda>r. py_key (fst r)) (resolved (directory example_profile) example_counts))"
    by code_simp
  from resolver_last_count_per_name [OF r d] dv
  have "sorted_wrt (\<lambda>a b. snd b \<le> snd a) [(JStr ''Ada'', 5::int), (JStr ''Bob'', 2)] \<and>
      dict_get [(JStr ''Ada'', 5::int), (JStr ''Bob'', 2)] (JStr ''Bob'') =
        dict_get (rev (resolved (directory example_profile) example_counts)) (JStr ''Bob'') \<and>
      mset [(JStr ''Ada'', 5::int), (JStr ''Bob'', 2)] =
        mset (resolved (directory example_profile) example_counts)"
    by blast
  with r d v dv show ?thesis by (intro conjI) simp_all
qed

section \<open>Properties of \<^verbatim>\<open>convert_2_timestamp\<close>\<close>













lemma mask_punctuation:
  "mask ''-'' = ''-''" "mask '' '' = '' ''" "mask '':'' = '':''"
  by (simp_all add: mask_def is_digit_def)












lemma fromtimestamp_year:
  assumes "localtime t = Inr lt" and "tm_year lt + 1900 < 1 \<or> 9999 < tm_year lt + 1900"
  shows "fromtimestamp localtime t = Inl ValueError"
  using assms by (auto simp: fromtimestamp_def utc_to_seconds_def Let_def)


lemma append_timestamp_returns_iff:
  "succeeds (for_each (append_timestamp float_str localtime pad) col acc) \<longleftrightarrow>
     list_all (\<lambda>t. py_key t = JNum 0 \<or>
                    succeeds (py_bind (py_float float_str t) (fromtimestamp localtime))) col"
proof (induction col arbitrary: acc)
  case Nil
  show ?case by (simp add: succeeds_def)
next
  case (Cons t col)
  show ?case
  proof (cases "py_key t = JNum 0")
    case True
    then have "append_timestamp float_str localtime pad t acc = Inr (acc @ [JNum 0])"
      by (simp add: append_timestamp_def)
    with True show ?thesis by (simp add: Cons.IH)
  next
    case False
    show ?thesis
    proof (cases "py_bind (py_float float_str t) (fromtimestamp localtime)")
      case (Inl e)
      with False have "append_timestamp float_str localtime pad t acc = Inl e"
        by (cases "py_float float_str t") (simp_all add: append_timestamp_def)
      with False Inl show ?thesis by (simp add: succeeds_def)
    next
      case (Inr a)
      with False have "\<exists>acc1. append_timestamp float_str localtime pad t acc = Inr acc1"
        by (cases "py_float float_str t") (simp_all add: append_timestamp_def)
      then obtain acc1 where "append_timestamp float_str localtime pad t acc = Inr acc1" ..
      with False Inr show ?thesis by (simp add: Cons.IH) (simp add: succeeds_def)
    qed
  qed
qed

lemma convert_2_timestamp_returns_iff:
  "succeeds (convert_2_timestamp float_str localtime pad column data) \<longleftrightarrow>
     (case map_of data column of
        None \<Rightarrow> True
      | Some col \<Rightarrow>
          list_all (\<lambda>t. py_key t = JNum 0 \<or>
                         succeeds (py_bind (py_float float_str t) (fromtimestamp localtime))) col)"
proof (cases "map_of data column")
  case None
  then show ?thesis by (simp add: convert_2_timestamp_def succeeds_def)
next
  case (Some col)
  have "succeeds (convert_2_timestamp float_str localtime pad column data) \<longleftrightarrow>
          succeeds (for_each (append_timestamp float_str localtime pad) col [])"
    using Some
    by (cases "for_each (append_timestamp float_str localtime pad) col []")
       (simp_all add: convert_2_timestamp_def succeeds_def)
  with Some show ?thesis by (simp add: append_timestamp_returns_iff)
qed




end
